theory Spec2Isabelle
  imports Complex_Main "HOL-Library.Stream"
begin

section \<open>K-means++ with parallel runs: the clustering core of the notebook\<close>

text \<open>
  The notebook \<^verbatim>\<open>Homework4/HW4-k-means-plus-plus.ipynb\<close> defines \<^verbatim>\<open>choice\<close>,
  \<^verbatim>\<open>kmeans_init\<close>, \<^verbatim>\<open>get_closest\<close>, \<^verbatim>\<open>kmeans\<close> and \<^verbatim>\<open>get_cost\<close>. They are embedded
  here as HOL functions. Exceptions are values of a sum type, the global numpy random
  generator is an explicit state, and the notebook global \<^verbatim>\<open>centroids\<close> that
  \<^verbatim>\<open>get_cost\<close> reads is an explicit parameter.
\<close>

subsection \<open>numpy floats\<close>

text \<open>
  A \<^verbatim>\<open>numpy.float64\<close> is a finite number, one of the two infinities, or not-a-number.
  The finite numbers are carried as reals. The special values follow IEEE 754 as
  numpy applies it to arrays (a division by zero warns and yields an infinity or
  not-a-number, it does not raise). An operation overflows as IEEE 754 has it: the
  largest float is \<open>2^1024 - 2^971\<close>, and a result whose magnitude is at least
  \<open>2^1024 - 2^970\<close>, half a unit beyond it, is an infinity. Below that bound the result
  of an operation is the exact real: the rounding to 53 bits and the sign of zero are
  not part of the model, and the properties below are stated so that they do not
  rest on exact results.
\<close>

datatype npfloat = Fin real | PInf | NInf | NaN

definition overflow_bound :: real where
  "overflow_bound = 2 ^ 1024 - 2 ^ 970"

text \<open>The float for the exact result \<open>x\<close> of an operation.\<close>

definition ovf :: "real \<Rightarrow> npfloat" where
  "ovf x = (if overflow_bound \<le> x then PInf else if x \<le> - overflow_bound then NInf else Fin x)"

fun fneg :: "npfloat \<Rightarrow> npfloat" where
  "fneg (Fin a) = Fin (- a)"
| "fneg PInf = NInf"
| "fneg NInf = PInf"
| "fneg NaN = NaN"

fun fadd :: "npfloat \<Rightarrow> npfloat \<Rightarrow> npfloat" where
  "fadd (Fin a) (Fin b) = ovf (a + b)"
| "fadd NaN y = NaN"
| "fadd x NaN = NaN"
| "fadd PInf NInf = NaN"
| "fadd NInf PInf = NaN"
| "fadd PInf y = PInf"
| "fadd x PInf = PInf"
| "fadd NInf y = NInf"
| "fadd x NInf = NInf"

definition fsub :: "npfloat \<Rightarrow> npfloat \<Rightarrow> npfloat" where
  "fsub x y = fadd x (fneg y)"

text \<open>The product of a finite number with \<open>+inf\<close>.\<close>

definition infmul :: "real \<Rightarrow> npfloat" where
  "infmul a = (if a = 0 then NaN else if 0 < a then PInf else NInf)"

fun fmul :: "npfloat \<Rightarrow> npfloat \<Rightarrow> npfloat" where
  "fmul (Fin a) (Fin b) = ovf (a * b)"
| "fmul NaN y = NaN"
| "fmul x NaN = NaN"
| "fmul (Fin a) PInf = infmul a"
| "fmul PInf (Fin a) = infmul a"
| "fmul (Fin a) NInf = infmul (- a)"
| "fmul NInf (Fin a) = infmul (- a)"
| "fmul PInf PInf = PInf"
| "fmul NInf NInf = PInf"
| "fmul PInf NInf = NInf"
| "fmul NInf PInf = NInf"

fun fdiv :: "npfloat \<Rightarrow> npfloat \<Rightarrow> npfloat" where
  "fdiv (Fin a) (Fin b) = (if b = 0 then infmul a else ovf (a / b))"
| "fdiv NaN y = NaN"
| "fdiv x NaN = NaN"
| "fdiv (Fin a) y = Fin 0"
| "fdiv PInf (Fin b) = (if 0 \<le> b then PInf else NInf)"
| "fdiv NInf (Fin b) = (if 0 \<le> b then NInf else PInf)"
| "fdiv x y = NaN"

fun fsqrt :: "npfloat \<Rightarrow> npfloat" where
  "fsqrt (Fin a) = (if a < 0 then NaN else Fin (sqrt a))"
| "fsqrt PInf = PInf"
| "fsqrt NInf = NaN"
| "fsqrt NaN = NaN"

text \<open>\<^verbatim>\<open>x < y\<close>; every comparison with not-a-number is false.\<close>

fun flt :: "npfloat \<Rightarrow> npfloat \<Rightarrow> bool" where
  "flt (Fin a) (Fin b) = (a < b)"
| "flt NaN y = False"
| "flt x NaN = False"
| "flt x NInf = False"
| "flt PInf y = False"
| "flt NInf y = True"
| "flt x PInf = True"

text \<open>\<^verbatim>\<open>x > y\<close> and \<^verbatim>\<open>x <= y\<close>.\<close>

definition fgt :: "npfloat \<Rightarrow> npfloat \<Rightarrow> bool" where
  "fgt x y = flt y x"

definition fle :: "npfloat \<Rightarrow> npfloat \<Rightarrow> bool" where
  "fle x y = (x \<noteq> NaN \<and> y \<noteq> NaN \<and> \<not> flt y x)"

text \<open>\<^verbatim>\<open>x ** 2\<close>.\<close>

definition fsq :: "npfloat \<Rightarrow> npfloat" where
  "fsq x = fmul x x"

text \<open>\<^verbatim>\<open>np.sum\<close> of a one-dimensional array; the sum of no numbers is \<open>0.0\<close>.\<close>

primrec npsum :: "npfloat list \<Rightarrow> npfloat" where
  "npsum [] = Fin 0"
| "npsum (x # xs) = fadd x (npsum xs)"

text \<open>
  \<^verbatim>\<open>np.min\<close> and \<^verbatim>\<open>np.max\<close> of two numbers: both propagate not-a-number.
\<close>

definition npmin2 :: "npfloat \<Rightarrow> npfloat \<Rightarrow> npfloat" where
  "npmin2 x y = (if x = NaN \<or> y = NaN then NaN else if flt y x then y else x)"

definition npmax2 :: "npfloat \<Rightarrow> npfloat \<Rightarrow> npfloat" where
  "npmax2 x y = (if x = NaN \<or> y = NaN then NaN else if flt x y then y else x)"

subsection \<open>Vectors, arrays and errors\<close>

text \<open>
  A feature vector is a one-dimensional array, a list of floats. The points of one
  data set, and the centroids computed from them, have one dimension (the notebook
  reads it off the first point: \<^verbatim>\<open>rdd.take(1)[0][1].shape[0]\<close>). An array of
  centroids has the shape \<^verbatim>\<open>(RUNS, K, shape)\<close>: a list of runs, each a list of \<open>K\<close>
  vectors.
\<close>

type_synonym vec = "npfloat list"
type_synonym point = "string \<times> vec"
type_synonym centers = "vec list list"

text \<open>
  The result of a numpy reduction is a number or a vector (\<^verbatim>\<open>mean\<close> and \<^verbatim>\<open>sum\<close> over
  the axis 0 of an empty array return a number).
\<close>

datatype ndarray = Scalar npfloat | Vector vec

datatype error = IndexError | ValueError | AssertionError

text \<open>\<^verbatim>\<open>v - w\<close> for two vectors of one dimension.\<close>

definition vsub :: "vec \<Rightarrow> vec \<Rightarrow> vec" where
  "vsub v w = map (\<lambda>(a, b). fsub a b) (zip v w)"

text \<open>\<^verbatim>\<open>numpy.linalg.norm\<close> of a vector: the square root of the sum of the squares.\<close>

definition norm_l2 :: "vec \<Rightarrow> npfloat" where
  "norm_l2 v = fsqrt (npsum (map fsq v))"

subsection \<open>The weighted sampler: \<^verbatim>\<open>choice\<close>\<close>

text \<open>
  \<^verbatim>\<open>
  def choice(p):
      random = np.random.random()
      r = 0.0
      for idx in range(len(p)):
          r = r + p[idx]
          if r > random:
              return idx
      assert(False)
  \<close>
  The loop, from the index \<open>idx\<close> on, with the running sum \<open>r\<close>; the list holds
  \<^verbatim>\<open>p[idx:]\<close>.
\<close>

fun choice_loop :: "npfloat \<Rightarrow> npfloat \<Rightarrow> nat \<Rightarrow> npfloat list \<Rightarrow> error + nat" where
  "choice_loop random r idx [] = Inl AssertionError"
| "choice_loop random r idx (x # xs) =
     (let r' = fadd r x in
      if fgt r' random then Inr idx else choice_loop random r' (Suc idx) xs)"

text \<open>\<^verbatim>\<open>choice\<close>, given the number that \<^verbatim>\<open>np.random.random()\<close> returned.\<close>

definition choice_with :: "npfloat \<Rightarrow> npfloat list \<Rightarrow> error + nat" where
  "choice_with random p = choice_loop random (Fin 0) 0 p"

subsection \<open>The nearest centroids: \<^verbatim>\<open>get_closest\<close>\<close>

text \<open>
  \<^verbatim>\<open>
  def get_closest(p, centers):
      best = [0] * len(centers)
      closest = [np.inf] * len(centers)
      for idx in range(len(centers)):
          for j in range(len(centers[0])):
              temp_dist = norm(p - centers[idx][j])
              if temp_dist < closest[idx]:
                  closest[idx] = temp_dist
                  best[idx] = j
      return best
  \<close>
  The inner loop over the indices \<open>js\<close> for one run \<open>cs = centers[idx]\<close>, on the pair
  \<open>(closest[idx], best[idx])\<close>. Reading \<^verbatim>\<open>centers[idx][j]\<close> beyond the run's length
  raises.
\<close>

fun closest_scan :: "vec \<Rightarrow> vec list \<Rightarrow> nat list \<Rightarrow> npfloat \<times> nat \<Rightarrow> error + npfloat \<times> nat" where
  "closest_scan p cs [] (closest, best) = Inr (closest, best)"
| "closest_scan p cs (j # js) (closest, best) =
     (if j < length cs then
        (let temp_dist = norm_l2 (vsub p (cs ! j)) in
         if flt temp_dist closest then closest_scan p cs js (temp_dist, j)
         else closest_scan p cs js (closest, best))
      else Inl IndexError)"

text \<open>
  The outer loop: the runs do not share state, each starts from
  \<open>(closest[idx], best[idx]) = (inf, 0)\<close>. The result lists the pairs
  \<open>(closest[idx], best[idx])\<close>; the first exception ends the loop.
\<close>

fun closest_runs :: "vec \<Rightarrow> nat \<Rightarrow> centers \<Rightarrow> error + (npfloat \<times> nat) list" where
  "closest_runs p k [] = Inr []"
| "closest_runs p k (cs # rest) =
     (case closest_scan p cs [0..<k] (PInf, 0) of
        Inl e \<Rightarrow> Inl e
      | Inr cb \<Rightarrow> (case closest_runs p k rest of Inl e \<Rightarrow> Inl e | Inr cbs \<Rightarrow> Inr (cb # cbs)))"

text \<open>\<^verbatim>\<open>len(centers[0])\<close> is only read when there is a run.\<close>

definition closest_and_best :: "vec \<Rightarrow> centers \<Rightarrow> error + (npfloat \<times> nat) list" where
  "closest_and_best p centers =
     (case centers of [] \<Rightarrow> Inr [] | cs0 # _ \<Rightarrow> closest_runs p (length cs0) centers)"

definition get_closest :: "vec \<Rightarrow> centers \<Rightarrow> error + nat list" where
  "get_closest p centers =
     (case closest_and_best p centers of Inl e \<Rightarrow> Inl e | Inr cbs \<Rightarrow> Inr (map snd cbs))"

subsection \<open>The objective: \<^verbatim>\<open>get_cost\<close>\<close>

text \<open>
  \<^verbatim>\<open>
  def get_cost(rdd, centers):
      def _get_cost(p, centers):
          (the two loops of get_closest)
          return np.array(closest)**2
      cost = rdd.map(lambda (name, v): _get_cost(v, centroids)).collect()
      return np.array(cost).sum(axis=0)
  \<close>
\<close>

definition get_cost_inner :: "vec \<Rightarrow> centers \<Rightarrow> error + vec" where
  "get_cost_inner p centers =
     (case closest_and_best p centers of
        Inl e \<Rightarrow> Inl e
      | Inr cbs \<Rightarrow> Inr (map (\<lambda>cb. fsq (fst cb)) cbs))"

text \<open>\<^verbatim>\<open>rdd.map(f).collect()\<close>: the first exception of \<open>f\<close> ends the job.\<close>

fun map_collect :: "('a \<Rightarrow> error + 'b) \<Rightarrow> 'a list \<Rightarrow> error + 'b list" where
  "map_collect f [] = Inr []"
| "map_collect f (x # xs) =
     (case f x of
        Inl e \<Rightarrow> Inl e
      | Inr y \<Rightarrow> (case map_collect f xs of Inl e \<Rightarrow> Inl e | Inr ys \<Rightarrow> Inr (y # ys)))"

text \<open>
  \<^verbatim>\<open>np.array(rows).sum(axis=0)\<close> for rows of one length: the vector of the column
  sums, and the number \<open>0.0\<close> when there is no row.
\<close>

definition sum_axis0 :: "vec list \<Rightarrow> ndarray" where
  "sum_axis0 rows =
     (case rows of
        [] \<Rightarrow> Scalar (Fin 0)
      | row0 # _ \<Rightarrow> Vector (map (\<lambda>c. npsum (map (\<lambda>row. row ! c) rows)) [0..<length row0]))"

text \<open>
  \<^verbatim>\<open>get_cost\<close>. The first parameter is the notebook's global variable \<^verbatim>\<open>centroids\<close>,
  which the lambda passes to \<^verbatim>\<open>_get_cost\<close>; the function's own parameter \<^verbatim>\<open>centers\<close>
  is the last one.
\<close>

definition get_cost :: "centers \<Rightarrow> point list \<Rightarrow> centers \<Rightarrow> error + ndarray" where
  "get_cost centroids rdd centers =
     (case map_collect (\<lambda>(name, v). get_cost_inner v centroids) rdd of
        Inl e \<Rightarrow> Inl e
      | Inr cost \<Rightarrow> Inr (sum_axis0 cost))"

subsection \<open>The random generator\<close>

text \<open>
  The notebook draws from numpy's global generator (\<^verbatim>\<open>np.random.random\<close>,
  \<^verbatim>\<open>np.random.randint\<close>), seeded once by \<^verbatim>\<open>np.random.seed(RANDOM_SEED)\<close> before
  \<^verbatim>\<open>kmeans\<close> is called. The state of the generator is modelled by the stream of the
  uniform numbers of \<open>[0, 1)\<close> it is going to return: \<^verbatim>\<open>np.random.random()\<close> returns
  the next one, \<^verbatim>\<open>np.random.randint(0, n)\<close> scales the next one to an index below \<open>n\<close>.
\<close>

type_synonym rng = "real stream"

text \<open>\<^verbatim>\<open>np.random.randint(0, n, m)\<close>: \<open>m\<close> indices, and the generator after them.\<close>

fun randint :: "nat \<Rightarrow> nat \<Rightarrow> rng \<Rightarrow> nat list \<times> rng" where
  "randint n 0 g = ([], g)"
| "randint n (Suc m) g =
     (case randint n m (stl g) of (ks, g') \<Rightarrow> (nat \<lfloor>shd g * real n\<rfloor> # ks, g'))"

text \<open>\<^verbatim>\<open>choice(p)\<close> on the generator \<open>g\<close>: it draws one number.\<close>

definition choice :: "rng \<Rightarrow> npfloat list \<Rightarrow> error + nat \<times> rng" where
  "choice g p =
     (case choice_with (Fin (shd g)) p of Inl e \<Rightarrow> Inl e | Inr idx \<Rightarrow> Inr (idx, stl g))"

subsection \<open>The seeder: \<^verbatim>\<open>kmeans_init\<close>\<close>

text \<open>
  \<^verbatim>\<open>
  def update_dist(vec, dist, k):
      new_dist = norm(vec - centers[:, k], axis=1)**2
      return np.min([dist, new_dist], axis=0)
  \<close>
  \<^verbatim>\<open>centers\<close> is the array of the enclosing \<^verbatim>\<open>kmeans_init\<close>; \<^verbatim>\<open>dist\<close> (here
  \<open>dists\<close>) has one entry for each run.
\<close>

definition update_dist :: "centers \<Rightarrow> vec \<Rightarrow> npfloat list \<Rightarrow> nat \<Rightarrow> npfloat list" where
  "update_dist centers vec dists k =
     map (\<lambda>(d, cs). npmin2 d (fsq (norm_l2 (vsub vec (cs ! k))))) (zip dists centers)"

text \<open>\<^verbatim>\<open>np.array(rows).T\<close> for rows of one length.\<close>

definition transpose_np :: "'a list list \<Rightarrow> 'a list list" where
  "transpose_np rows =
     (case rows of
        [] \<Rightarrow> []
      | row0 # _ \<Rightarrow> map (\<lambda>c. map (\<lambda>row. row ! c) rows) [0..<length row0])"

text \<open>
  \<^verbatim>\<open>D = np.array([update_dist(vec, D[:,x], idx) for x, vec in enumerate(local_data)]).T\<close>
\<close>

definition update_D :: "centers \<Rightarrow> vec list \<Rightarrow> npfloat list list \<Rightarrow> nat \<Rightarrow> npfloat list list" where
  "update_D centers local_data D idx =
     transpose_np
       (map (\<lambda>(x, vec). update_dist centers vec (map (\<lambda>row. row ! x) D) idx)
          (enumerate 0 local_data))"

text \<open>\<^verbatim>\<open>prob = ((D.T)/D.sum(axis=1)).T\<close>: every row divided by its sum.\<close>

definition normalize_rows :: "npfloat list list \<Rightarrow> npfloat list list" where
  "normalize_rows D = map (\<lambda>row. map (\<lambda>d. fdiv d (npsum row)) row) D"

text \<open>
  \<^verbatim>\<open>
  for i in range(RUNS):
      ind = choice(prob[i])
      centers[i,idx+1,:] = local_data[ind]
  \<close>
  on the runs \<open>is\<close> that are left.
\<close>

fun choose_runs ::
  "vec list \<Rightarrow> npfloat list list \<Rightarrow> nat \<Rightarrow> nat list \<Rightarrow> centers \<times> rng \<Rightarrow> error + centers \<times> rng" where
  "choose_runs local_data prob idx [] (centers, g) = Inr (centers, g)"
| "choose_runs local_data prob idx (i # is) (centers, g) =
     (case choice g (prob ! i) of
        Inl e \<Rightarrow> Inl e
      | Inr (ind, g') \<Rightarrow>
          choose_runs local_data prob idx is
            (centers[i := (centers ! i)[Suc idx := local_data ! ind]], g'))"

text \<open>
  The loop \<^verbatim>\<open>for idx in range(K - 1)\<close> on the rounds \<open>idxs\<close> that are left. The state
  is the array \<open>centers\<close>, the distance cache \<open>D\<close> and the generator.
\<close>

fun init_rounds ::
  "vec list \<Rightarrow> nat \<Rightarrow> nat list \<Rightarrow> centers \<times> npfloat list list \<times> rng \<Rightarrow>
   error + centers \<times> npfloat list list \<times> rng" where
  "init_rounds local_data RUNS [] st = Inr st"
| "init_rounds local_data RUNS (idx # idxs) (centers, D, g) =
     (let D' = update_D centers local_data D idx;
          prob = normalize_rows D'
      in case choose_runs local_data prob idx [0..<RUNS] (centers, g) of
           Inl e \<Rightarrow> Inl e
         | Inr (centers', g') \<Rightarrow> init_rounds local_data RUNS idxs (centers', D', g'))"

text \<open>
  The state before the loop:
  \<^verbatim>\<open>
  n_data = rdd.count()
  shape = rdd.take(1)[0][1].shape[0]
  centers = np.zeros((RUNS, K, shape))
  local_data = rdd.map(lambda (name, vec): vec).collect()
  sample = [local_data[k] for k in np.random.randint(0, len(local_data), RUNS)]
  centers[:, 0] = sample
  D = (np.inf)*np.ones((RUNS,n_data))
  \<close>
  An empty \<^verbatim>\<open>rdd\<close> has no first point (\<^verbatim>\<open>rdd.take(1)[0]\<close> raises); with \<open>K = 0\<close> the
  array has no column \<open>0\<close>; with \<open>RUNS = 0\<close> the empty sample has the shape \<open>(0,)\<close>,
  which does not broadcast to \<open>(0, shape)\<close> unless \<open>shape = 0\<close>. An index of the
  sample beyond the data raises (no number of \<open>[0, 1)\<close> gives one). The lazy
  \<^verbatim>\<open>data = rdd.map(...).cache()\<close> is never used. \<open>K\<close> and \<open>RUNS\<close> are natural numbers.
\<close>

definition init_state ::
  "rng \<Rightarrow> point list \<Rightarrow> nat \<Rightarrow> nat \<Rightarrow> error + centers \<times> npfloat list list \<times> rng" where
  "init_state g rdd K RUNS =
     (case rdd of
        [] \<Rightarrow> Inl IndexError
      | first # _ \<Rightarrow>
          (let n_data = length rdd;
               shape = length (snd first);
               centers = replicate RUNS (replicate K (replicate shape (Fin 0)));
               local_data = map snd rdd
           in case randint (length local_data) RUNS g of
                (ks, g') \<Rightarrow>
                  if \<exists>k\<in>set ks. length local_data \<le> k then Inl IndexError
                  else if K = 0 then Inl IndexError
                  else if RUNS = 0 \<and> shape \<noteq> 0 then Inl ValueError
                  else Inr (map (\<lambda>(cs, k). cs[0 := local_data ! k]) (zip centers ks),
                            replicate RUNS (replicate n_data PInf), g')))"

text \<open>
  \<^verbatim>\<open>kmeans_init(rdd, K, RUNS, seed)\<close>, on the generator \<open>g\<close>; it returns \<^verbatim>\<open>centers\<close>,
  and the generator is left in its new state.
\<close>

definition kmeans_init :: "rng \<Rightarrow> point list \<Rightarrow> nat \<Rightarrow> nat \<Rightarrow> int \<Rightarrow> error + centers \<times> rng" where
  "kmeans_init g rdd K RUNS seed =
     (case init_state g rdd K RUNS of
        Inl e \<Rightarrow> Inl e
      | Inr st \<Rightarrow>
          (case init_rounds (map snd rdd) RUNS [0..<K - 1] st of
             Inl e \<Rightarrow> Inl e
           | Inr (centers, D, g') \<Rightarrow> Inr (centers, g')))"

subsection \<open>The refiner: \<^verbatim>\<open>kmeans\<close>\<close>

text \<open>
  \<^verbatim>\<open>EachSet.mean(axis = 0)\<close>: the mean of the rows, coordinate by coordinate. The
  empty array has the shape \<open>(0,)\<close> and its mean is the number not-a-number (numpy
  warns, it does not raise).
\<close>

definition mean_axis0 :: "vec list \<Rightarrow> ndarray" where
  "mean_axis0 rows =
     (case rows of
        [] \<Rightarrow> Scalar NaN
      | row0 # _ \<Rightarrow>
          Vector (map (\<lambda>c. fdiv (npsum (map (\<lambda>row. row ! c) rows)) (Fin (real (length rows))))
                    [0..<length row0]))"

text \<open>
  \<^verbatim>\<open>EachSet = np.array([y for x,y in enumerate(local_data) if local_cluster[i][x]==j])\<close>,
  where \<^verbatim>\<open>local_cluster = np.array(cluster.collect()).T\<close>, so that
  \<^verbatim>\<open>local_cluster[i][x]\<close> is \<^verbatim>\<open>cluster[x][i]\<close>.
\<close>

definition each_set :: "vec list \<Rightarrow> nat list list \<Rightarrow> nat \<Rightarrow> nat \<Rightarrow> vec list" where
  "each_set local_data cluster i j =
     map snd (filter (\<lambda>(x, y). cluster ! x ! i = j) (enumerate 0 local_data))"

text \<open>
  \<^verbatim>\<open>k_points[idx][j] - new_points[(idx, j)]\<close> and \<^verbatim>\<open>k_points[idx][j] = p\<close>: a number is
  broadcast over the row.
\<close>

fun sub_array :: "vec \<Rightarrow> ndarray \<Rightarrow> vec" where
  "sub_array v (Scalar s) = map (\<lambda>a. fsub a s) v"
| "sub_array v (Vector w) = vsub v w"

fun assign_row :: "vec \<Rightarrow> ndarray \<Rightarrow> vec" where
  "assign_row v (Scalar s) = replicate (length v) s"
| "assign_row v (Vector w) = w"

text \<open>\<^verbatim>\<open>np.max\<close> of a list: the empty list raises, not-a-number propagates.\<close>

fun np_max :: "npfloat list \<Rightarrow> error + npfloat" where
  "np_max [] = Inl ValueError"
| "np_max (x # xs) = Inr (foldl npmax2 x xs)"

text \<open>
  The entry of the dictionary \<^verbatim>\<open>new_points\<close> for the key \<open>(i, j)\<close>. Every iteration
  writes all the keys \<open>(i, j)\<close> with \<open>i < RUNS\<close> and \<open>j < K\<close> before it reads them, so the
  dictionary is the function of its keys that the iteration computes.
\<close>

definition new_point :: "vec list \<Rightarrow> nat list list \<Rightarrow> nat \<Rightarrow> nat \<Rightarrow> ndarray" where
  "new_point local_data cluster i j = mean_axis0 (each_set local_data cluster i j)"

text \<open>
  \<^verbatim>\<open>
  temp_dist = np.max([
          np.sum([norm(k_points[idx][j] - new_points[(idx, j)]) for j in range(K)])
              for idx in range(RUNS)])
  \<close>
  The inner sum, for the run \<open>idx\<close>, and the maximum over the runs.
\<close>

definition run_shift :: "nat \<Rightarrow> centers \<Rightarrow> (nat \<Rightarrow> nat \<Rightarrow> ndarray) \<Rightarrow> nat \<Rightarrow> npfloat" where
  "run_shift K k_points new_points idx =
     npsum (map (\<lambda>j. norm_l2 (sub_array (k_points ! idx ! j) (new_points idx j))) [0..<K])"

definition max_shift :: "nat \<Rightarrow> nat \<Rightarrow> centers \<Rightarrow> (nat \<Rightarrow> nat \<Rightarrow> ndarray) \<Rightarrow> error + npfloat" where
  "max_shift K RUNS k_points new_points =
     np_max (map (run_shift K k_points new_points) [0..<RUNS])"

text \<open>
  \<^verbatim>\<open>
  for ((idx, j), p) in new_points.items():
      k_points[idx][j] = p
  \<close>
  on the array of the shape \<open>(RUNS, K, shape)\<close> that \<^verbatim>\<open>kmeans_init\<close> returned.
\<close>

definition update_points :: "nat \<Rightarrow> nat \<Rightarrow> centers \<Rightarrow> (nat \<Rightarrow> nat \<Rightarrow> ndarray) \<Rightarrow> centers" where
  "update_points K RUNS k_points new_points =
     map (\<lambda>idx. map (\<lambda>j. assign_row (k_points ! idx ! j) (new_points idx j)) [0..<K]) [0..<RUNS]"

text \<open>
  The body of the \<^verbatim>\<open>while\<close> loop: the assignment of every point, the new points, the
  shift, and the update of the centroids. It returns the new \<^verbatim>\<open>temp_dist\<close> and the
  new \<^verbatim>\<open>k_points\<close>. (The log line every fifth iteration changes no variable.)
\<close>

definition kmeans_body ::
  "point list \<Rightarrow> vec list \<Rightarrow> nat \<Rightarrow> nat \<Rightarrow> centers \<Rightarrow> error + npfloat \<times> centers" where
  "kmeans_body rdd local_data K RUNS k_points =
     (case map_collect (\<lambda>x. get_closest (snd x) k_points) rdd of
        Inl e \<Rightarrow> Inl e
      | Inr cluster \<Rightarrow>
          (case max_shift K RUNS k_points (new_point local_data cluster) of
             Inl e \<Rightarrow> Inl e
           | Inr temp_dist \<Rightarrow>
               Inr (temp_dist, update_points K RUNS k_points (new_point local_data cluster))))"

text \<open>
  \<^verbatim>\<open>while temp_dist > converge_dist\<close>, on the state \<open>(temp_dist, iters, k_points)\<close>.
  The loop has no bound on its iterations: \<open>None\<close> is the loop that never ends.
\<close>

partial_function (option) kmeans_loop ::
  "point list \<Rightarrow> vec list \<Rightarrow> nat \<Rightarrow> nat \<Rightarrow> npfloat \<Rightarrow> npfloat \<times> nat \<times> centers \<Rightarrow>
   (error + npfloat \<times> nat \<times> centers) option" where
  "kmeans_loop rdd local_data K RUNS converge_dist st =
     (case st of (temp_dist, iters, k_points) \<Rightarrow>
        if fgt temp_dist converge_dist then
          (case kmeans_body rdd local_data K RUNS k_points of
             Inl e \<Rightarrow> Some (Inl e)
           | Inr (temp_dist', k_points') \<Rightarrow>
               kmeans_loop rdd local_data K RUNS converge_dist (temp_dist', iters + 1, k_points'))
        else Some (Inr (temp_dist, iters, k_points)))"

text \<open>
  \<^verbatim>\<open>kmeans(rdd, K, RUNS, converge_dist, seed)\<close> up to the end of its loop, with the
  final values of \<^verbatim>\<open>temp_dist\<close>, \<^verbatim>\<open>iters\<close> and \<^verbatim>\<open>k_points\<close>.
\<close>

definition kmeans_run ::
  "rng \<Rightarrow> point list \<Rightarrow> nat \<Rightarrow> nat \<Rightarrow> npfloat \<Rightarrow> int \<Rightarrow> (error + npfloat \<times> nat \<times> centers) option" where
  "kmeans_run g rdd K RUNS converge_dist seed =
     (case kmeans_init g rdd K RUNS seed of
        Inl e \<Rightarrow> Some (Inl e)
      | Inr (k_points, g') \<Rightarrow>
          kmeans_loop rdd (map snd rdd) K RUNS converge_dist (Fin 1, 0, k_points))"

text \<open>\<^verbatim>\<open>kmeans\<close> returns \<^verbatim>\<open>k_points\<close>.\<close>

definition kmeans ::
  "rng \<Rightarrow> point list \<Rightarrow> nat \<Rightarrow> nat \<Rightarrow> npfloat \<Rightarrow> int \<Rightarrow> (error + centers) option" where
  "kmeans g rdd K RUNS converge_dist seed =
     map_option (map_sum id (\<lambda>(temp_dist, iters, k_points). k_points))
       (kmeans_run g rdd K RUNS converge_dist seed)"

subsection \<open>An example data set\<close>

text \<open>
  Six points on a line, and a generator that returns \<open>1/4\<close>, \<open>1/2\<close> and then \<open>0\<close> for
  ever. With \<open>K = 3\<close> and \<open>RUNS = 1\<close>, \<^verbatim>\<open>kmeans_init\<close> picks the points \<open>10\<close>, \<open>51\<close>
  and \<open>1\<close>.
\<close>

definition ex_rdd :: "point list" where
  "ex_rdd = [(''a'', [Fin 1]), (''b'', [Fin 10]), (''c'', [Fin 30]), (''d'', [Fin 31]),
             (''e'', [Fin 32]), (''f'', [Fin 51])]"

definition ex_rng :: rng where
  "ex_rng = (1/4) ## (1/2) ## sconst 0"

text \<open>A large coordinate, \<open>10^200\<close>: its square is beyond the largest float.\<close>

definition ex_far :: real where
  "ex_far = 10 ^ 200"

text \<open>
  A generator for two runs: with \<open>K = 3\<close> and \<open>RUNS = 2\<close>, \<^verbatim>\<open>kmeans_init\<close> picks the
  points \<open>10\<close>, \<open>51\<close> and \<open>1\<close> for the run \<open>0\<close> and \<open>30\<close>, \<open>10\<close> and \<open>32\<close> for the run \<open>1\<close>.
\<close>

definition ex_rng2 :: rng where
  "ex_rng2 = (1/4) ## (2/5) ## (1/2) ## (3/5) ## 0 ## (4/25) ## sconst 0"

subsection \<open>Notions of the specification\<close>

text \<open>The Euclidean distance of two real vectors, in exact arithmetic.\<close>

definition euclid :: "real list \<Rightarrow> real list \<Rightarrow> real" where
  "euclid p c = sqrt (\<Sum>(a, b)\<leftarrow>zip p c. (a - b)\<^sup>2)"

text \<open>The cumulative sum of the first \<open>n\<close> weights, as \<^verbatim>\<open>choice\<close> accumulates it.\<close>

definition running_sum :: "npfloat list \<Rightarrow> nat \<Rightarrow> npfloat" where
  "running_sum p n = foldl fadd (Fin 0) (take n p)"

text \<open>
  The index \<open>b\<close> has the least computed norm among the centroids \<open>cs\<close> of a run: no
  norm \<^verbatim>\<open>norm(p - c)\<close> is less than its norm, and no norm of a lower index is less than
  or equal to it.
\<close>

definition least_norm :: "vec \<Rightarrow> vec list \<Rightarrow> nat \<Rightarrow> bool" where
  "least_norm p cs b =
     (b < length cs \<and>
      (\<forall>j<length cs. \<not> flt (norm_l2 (vsub p (cs ! j))) (norm_l2 (vsub p (cs ! b)))) \<and>
      (\<forall>j<b. \<not> fle (norm_l2 (vsub p (cs ! j))) (norm_l2 (vsub p (cs ! b)))))"

subsection \<open>Invariants of the seeding phase\<close>

text \<open>A vector of finite numbers.\<close>

definition fin_vec :: "vec \<Rightarrow> bool" where
  "fin_vec v = (\<exists>w. v = map Fin w)"

text \<open>
  The array \<^verbatim>\<open>centers\<close> has the shape \<open>(RUNS, K, shape)\<close> and holds finite vectors; the
  cache \<open>D\<close> has the shape \<open>(RUNS, N)\<close> and holds numbers that are not negative.
\<close>

definition centers_shape :: "vec list \<Rightarrow> nat \<Rightarrow> nat \<Rightarrow> centers \<Rightarrow> bool" where
  "centers_shape local_data RUNS K centers =
     (length centers = RUNS \<and> (\<forall>cs\<in>set centers. length cs = K \<and> (\<forall>c\<in>set cs. fin_vec c)))"

definition cache_shape :: "vec list \<Rightarrow> nat \<Rightarrow> npfloat list list \<Rightarrow> bool" where
  "cache_shape local_data RUNS D =
     (length D = RUNS \<and>
      (\<forall>row\<in>set D. length row = length local_data \<and> (\<forall>d\<in>set row. fle (Fin 0) d)))"

text \<open>Every number the generator is going to return lies in \<open>[0, 1)\<close>.\<close>

definition uniform :: "rng \<Rightarrow> bool" where
  "uniform g = (\<forall>u\<in>sset g. 0 \<le> u \<and> u < 1)"

text \<open>
  After \<open>m\<close> rounds: the first \<open>m + 1\<close> centroids of every run are distinct points of
  the data, and the cache is \<open>0\<close> at every point that is one of the first \<open>m\<close>.
\<close>

definition seed_distinct :: "vec list \<Rightarrow> nat \<Rightarrow> nat \<Rightarrow> centers \<Rightarrow> npfloat list list \<Rightarrow> bool" where
  "seed_distinct local_data RUNS m centers D =
     (\<forall>r<RUNS. distinct (take (Suc m) (centers ! r)) \<and>
               set (take (Suc m) (centers ! r)) \<subseteq> set local_data \<and>
               (\<forall>x<length local_data. \<forall>k<m. local_data ! x = centers ! r ! k \<longrightarrow> D ! r ! x = Fin 0))"

section \<open>Properties\<close>

subsection \<open>Numbers that do not overflow\<close>

lemma overflow_bound_large: "1000000 < overflow_bound"
  by (simp add: overflow_bound_def)

lemma ovf_small: "\<bar>x\<bar> \<le> 1000000 \<Longrightarrow> ovf x = Fin x"
  using overflow_bound_large by (auto simp: ovf_def)

lemma ovf_zero: "ovf 0 = Fin 0"
  by (simp add: ovf_small)

lemma norm_1d:
  assumes "\<bar>a - b\<bar> \<le> 1000"
  shows "norm_l2 (vsub [Fin a] [Fin b]) = Fin \<bar>a - b\<bar>"
proof -
  from assms have "\<bar>a - b\<bar> * \<bar>a - b\<bar> \<le> 1000 * 1000"
    by (intro mult_mono) simp_all
  then have sq: "\<bar>(a - b) * (a - b)\<bar> \<le> 1000000" by (simp add: abs_mult)
  from assms have d: "\<bar>a - b\<bar> \<le> 1000000" by simp
  have "sqrt ((a - b) * (a - b)) = \<bar>a - b\<bar>" by simp
  with sq d show ?thesis
    by (simp add: norm_l2_def vsub_def fsub_def fsq_def ovf_small)
qed

lemma euclid_1d: "euclid [a] [b] = \<bar>a - b\<bar>"
  by (simp add: euclid_def)

subsection \<open>The weighted sampler\<close>

lemma choice_loop_assert:
  "(choice_loop u r idx xs = Inl AssertionError) =
     (\<not> (\<exists>i<length xs. fgt (foldl fadd r (take (Suc i) xs)) u))"
proof (induction xs arbitrary: r idx)
  case Nil
  then show ?case by simp
next
  case (Cons x xs)
  show ?case
  proof (cases "fgt (fadd r x) u")
    case True
    then have "\<exists>i<length (x # xs). fgt (foldl fadd r (take (Suc i) (x # xs))) u"
      by (intro exI[of _ 0]) simp
    with True show ?thesis by (simp add: Let_def)
  next
    case False
    have "(\<exists>i<length (x # xs). fgt (foldl fadd r (take (Suc i) (x # xs))) u) =
          (\<exists>i<length xs. fgt (foldl fadd (fadd r x) (take (Suc i) xs)) u)"
      (is "?L = ?R")
    proof
      assume ?L
      then obtain i where i: "i < length (x # xs)" "fgt (foldl fadd r (take (Suc i) (x # xs))) u"
        by blast
      show ?R
      proof (cases i)
        case 0
        with i False show ?thesis by simp
      next
        case (Suc k)
        with i show ?thesis by (intro exI[of _ k]) simp
      qed
    next
      assume ?R
      then obtain i where "i < length xs" "fgt (foldl fadd (fadd r x) (take (Suc i) xs)) u"
        by blast
      then show ?L by (intro exI[of _ "Suc i"]) simp
    qed
    with False Cons.IH[of "fadd r x" "Suc idx"] show ?thesis by (simp add: Let_def)
  qed
qed

lemma choice_loop_first:
  assumes "i < length xs"
    and "fgt (foldl fadd r (take (Suc i) xs)) u"
    and "\<not> (\<exists>k<i. fgt (foldl fadd r (take (Suc k) xs)) u)"
  shows "choice_loop u r idx xs = Inr (idx + i)"
  using assms
proof (induction xs arbitrary: r idx i)
  case Nil
  then show ?case by simp
next
  case (Cons x xs)
  show ?case
  proof (cases i)
    case 0
    with Cons.prems show ?thesis by (simp add: Let_def)
  next
    case (Suc k)
    with Cons.prems(3) have nx: "\<not> fgt (fadd r x) u"
      by (auto dest: spec[of _ 0])
    have "\<not> (\<exists>m<k. fgt (foldl fadd (fadd r x) (take (Suc m) xs)) u)"
    proof
      assume "\<exists>m<k. fgt (foldl fadd (fadd r x) (take (Suc m) xs)) u"
      then obtain m where "m < k" "fgt (foldl fadd (fadd r x) (take (Suc m) xs)) u" by blast
      then have "Suc m < i \<and> fgt (foldl fadd r (take (Suc (Suc m)) (x # xs))) u"
        using Suc by simp
      with Cons.prems(3) show False by blast
    qed
    with Cons.IH[of k "fadd r x" "Suc idx"] Cons.prems(1,2) Suc
    have "choice_loop u (fadd r x) (Suc idx) xs = Inr (Suc idx + k)" by simp
    with nx Suc show ?thesis by (simp add: Let_def)
  qed
qed

lemma choice_loop_errors: "choice_loop u r idx xs = Inl e \<Longrightarrow> e = AssertionError"
  by (induction xs arbitrary: r idx) (auto simp: Let_def split: if_splits)

text \<open>
  Claim C5, as the code has it. For every weights vector and every draw: if the
  cumulative sum never exceeds the draw, \<^verbatim>\<open>choice\<close> ends in the failure of its
  \<^verbatim>\<open>assert(False)\<close> (an \<^verbatim>\<open>AssertionError\<close>), it neither raises another fault nor
  returns an index; and if the cumulative sum exceeds the draw, \<^verbatim>\<open>choice\<close> returns
  the first index at which it does.
\<close>

theorem choice_assertion_failure:
  "(\<not> (\<exists>i<length p. fgt (running_sum p (Suc i)) (Fin (shd g))) \<longrightarrow>
      choice g p = Inl AssertionError) \<and>
   (\<forall>i<length p. fgt (running_sum p (Suc i)) (Fin (shd g)) \<and>
        \<not> (\<exists>k<i. fgt (running_sum p (Suc k)) (Fin (shd g))) \<longrightarrow>
      choice g p = Inr (i, stl g))"
proof (intro conjI impI allI)
  assume "\<not> (\<exists>i<length p. fgt (running_sum p (Suc i)) (Fin (shd g)))"
  then have "choice_loop (Fin (shd g)) (Fin 0) 0 p = Inl AssertionError"
    unfolding running_sum_def using choice_loop_assert[of "Fin (shd g)" "Fin 0" 0 p] by blast
  then show "choice g p = Inl AssertionError"
    by (simp add: choice_def choice_with_def)
next
  fix i
  assume "i < length p"
    and "fgt (running_sum p (Suc i)) (Fin (shd g)) \<and>
         \<not> (\<exists>k<i. fgt (running_sum p (Suc k)) (Fin (shd g)))"
  then have "choice_loop (Fin (shd g)) (Fin 0) 0 p = Inr (0 + i)"
    unfolding running_sum_def by (intro choice_loop_first) auto
  then show "choice g p = Inr (i, stl g)"
    by (simp add: choice_def choice_with_def)
qed

theorem choice_assertion_failure_witness:
  "choice (sconst (1/2)) [Fin 0, Fin (1/4)] = Inl AssertionError \<and>
   choice (sconst (1/2)) [Fin (1/4), Fin (1/2), Fin (1/4)] = Inr (1, sconst (1/2))"
proof
  have "\<not> (\<exists>i<length [Fin 0, Fin (1/4)].
            fgt (running_sum [Fin 0, Fin (1/4)] (Suc i)) (Fin (shd (sconst (1/2)))))"
    by (simp add: running_sum_def fgt_def Ex_less_Suc ovf_small)
  with choice_assertion_failure[of "[Fin 0, Fin (1/4)]" "sconst (1/2)"]
  show "choice (sconst (1/2)) [Fin 0, Fin (1/4)] = Inl AssertionError"
    by blast
next
  have "fgt (running_sum [Fin (1/4), Fin (1/2), Fin (1/4)] (Suc 1)) (Fin (shd (sconst (1/2)))) \<and>
        \<not> (\<exists>k<1. fgt (running_sum [Fin (1/4), Fin (1/2), Fin (1/4)] (Suc k)) (Fin (shd (sconst (1/2)))))"
    by (simp add: running_sum_def fgt_def ovf_small)
  moreover have "(1::nat) < length [Fin (1/4), Fin (1/2), Fin (1/4)]" by simp
  ultimately have "choice (sconst (1/2)) [Fin (1/4), Fin (1/2), Fin (1/4)] = Inr (1, stl (sconst (1/2)))"
    using choice_assertion_failure[of "[Fin (1/4), Fin (1/2), Fin (1/4)]" "sconst (1/2)"] by blast
  then show "choice (sconst (1/2)) [Fin (1/4), Fin (1/2), Fin (1/4)] = Inr (1, sconst (1/2))"
    by simp
qed

text \<open>
  Claim C5 as the specification states it fails: the weights \<open>[nan, nan]\<close> (what
  \<^verbatim>\<open>kmeans_init\<close> computes from identical points, \<open>0/0\<close>) never make the cumulative
  sum exceed the draw \<open>1/2\<close>, and \<^verbatim>\<open>choice\<close> ends in the assertion failure; it does not
  return the last index.
\<close>

theorem choice_spec_counterexample:
  "\<not> (\<exists>i<length [NaN, NaN]. fgt (running_sum [NaN, NaN] (Suc i)) (Fin (1/2))) \<and>
   choice (sconst (1/2)) [NaN, NaN] = Inl AssertionError \<and>
   choice (sconst (1/2)) [NaN, NaN] \<noteq> Inr (length [NaN, NaN] - 1, sconst (1/2))"
  by (simp add: running_sum_def fgt_def Ex_less_Suc choice_def choice_with_def)

subsection \<open>The order of the floats\<close>

lemma flt_NaN: "\<not> flt x NaN"
  by (cases x) simp_all

lemma flt_irrefl: "\<not> flt x x"
  by (cases x) simp_all

lemma flt_trans: "flt x y \<Longrightarrow> flt y z \<Longrightarrow> flt x z"
  by (cases x; cases y; cases z) simp_all

lemma flt_between: "flt a c \<Longrightarrow> \<not> flt b c \<Longrightarrow> b \<noteq> NaN \<Longrightarrow> flt a b"
  by (cases a; cases b; cases c) simp_all

lemma not_flt_PInf: "\<not> flt x PInf \<Longrightarrow> x = PInf \<or> x = NaN"
  by (cases x) simp_all

lemma flt_not_NaN: "flt x y \<Longrightarrow> x \<noteq> NaN \<and> y \<noteq> NaN"
  by (cases x; cases y) simp_all

subsection \<open>The nearest centroids\<close>

lemma closest_scan_append:
  "closest_scan p cs (js @ ks) st =
     (case closest_scan p cs js st of Inl e \<Rightarrow> Inl e | Inr st' \<Rightarrow> closest_scan p cs ks st')"
  by (induction p cs js st rule: closest_scan.induct) (auto simp: Let_def)

text \<open>
  One run, scanned up to the index \<open>k\<close>. The pair \<open>(closest, best)\<close> is still the
  initial \<open>(inf, 0)\<close>, or it holds the norm of the index \<open>best\<close>; no norm so far is less
  than \<open>closest\<close>, and no norm of an index before \<open>best\<close> is less than or equal to it.
\<close>

lemma closest_scan_least:
  assumes "k \<le> length cs"
  shows "\<exists>cl b. closest_scan p cs [0..<k] (PInf, 0) = Inr (cl, b) \<and> cl \<noteq> NaN \<and>
           (\<forall>j<k. \<not> flt (norm_l2 (vsub p (cs ! j))) cl) \<and>
           ((cl = PInf \<and> b = 0) \<or>
            (b < k \<and> cl = norm_l2 (vsub p (cs ! b)) \<and>
             (\<forall>j<b. \<not> fle (norm_l2 (vsub p (cs ! j))) cl)))"
  using assms
proof (induction k)
  case 0
  then show ?case by simp
next
  case (Suc k)
  let ?d = "\<lambda>j. norm_l2 (vsub p (cs ! j))"
  from Suc obtain cl b where scan: "closest_scan p cs [0..<k] (PInf, 0) = Inr (cl, b)"
    and nn: "cl \<noteq> NaN"
    and least: "\<forall>j<k. \<not> flt (?d j) cl"
    and which: "(cl = PInf \<and> b = 0) \<or> (b < k \<and> cl = ?d b \<and> (\<forall>j<b. \<not> fle (?d j) cl))"
    by auto
  from Suc.prems have k: "k < length cs" by simp
  show ?case
  proof (cases "flt (?d k) cl")
    case True
    have res: "closest_scan p cs [0..<Suc k] (PInf, 0) = Inr (?d k, k)"
      using scan k True by (simp add: closest_scan_append Let_def)
    from True have dk: "?d k \<noteq> NaN" by (auto dest: flt_not_NaN)
    have l1: "\<not> flt (?d j) (?d k)" if "j < Suc k" for j
    proof (cases "j = k")
      case True
      then show ?thesis by (simp add: flt_irrefl)
    next
      case False
      with that have "j < k" by simp
      with least have "\<not> flt (?d j) cl" by simp
      with True show ?thesis by (auto dest: flt_trans)
    qed
    have l2: "\<not> fle (?d j) (?d k)" if "j < k" for j
    proof
      assume "fle (?d j) (?d k)"
      then have "?d j \<noteq> NaN" "\<not> flt (?d k) (?d j)" by (simp_all add: fle_def)
      moreover from that least have "\<not> flt (?d j) cl" by simp
      ultimately show False using True by (auto dest: flt_between)
    qed
    from res dk l1 l2 show ?thesis by auto
  next
    case False
    have res: "closest_scan p cs [0..<Suc k] (PInf, 0) = Inr (cl, b)"
      using scan k False by (simp add: closest_scan_append Let_def)
    have "\<forall>j<Suc k. \<not> flt (?d j) cl"
      using least False by (auto simp: less_Suc_eq)
    moreover have "(cl = PInf \<and> b = 0) \<or>
        (b < Suc k \<and> cl = ?d b \<and> (\<forall>j<b. \<not> fle (?d j) cl))"
      using which by auto
    ultimately show ?thesis using res nn by auto
  qed
qed

lemma closest_scan_run:
  assumes "0 < length cs"
  shows "\<exists>cl b. closest_scan p cs [0..<length cs] (PInf, 0) = Inr (cl, b) \<and> least_norm p cs b"
proof -
  let ?d = "\<lambda>j. norm_l2 (vsub p (cs ! j))"
  from closest_scan_least[where k = "length cs" and cs = cs and p = p, OF le_refl]
  obtain cl b where scan: "closest_scan p cs [0..<length cs] (PInf, 0) = Inr (cl, b)"
    and least: "\<forall>j<length cs. \<not> flt (?d j) cl"
    and which: "(cl = PInf \<and> b = 0) \<or>
                (b < length cs \<and> cl = ?d b \<and> (\<forall>j<b. \<not> fle (?d j) cl))"
    by blast
  from which have "least_norm p cs b"
  proof
    assume init: "cl = PInf \<and> b = 0"
    with least assms have "?d 0 = PInf \<or> ?d 0 = NaN" by (auto dest: not_flt_PInf)
    then have "\<not> flt (?d j) (?d 0)" if "j < length cs" for j
      using that least init by (auto simp: flt_NaN)
    with init assms show ?thesis by (simp add: least_norm_def)
  next
    assume "b < length cs \<and> cl = ?d b \<and> (\<forall>j<b. \<not> fle (?d j) cl)"
    with least show ?thesis unfolding least_norm_def by blast
  qed
  with scan show ?thesis by blast
qed

lemma closest_runs_least:
  assumes "\<forall>cs\<in>set centers. length cs = K" and "0 < K"
  shows "\<exists>cbs. closest_runs p K centers = Inr cbs \<and> length cbs = length centers \<and>
           (\<forall>r<length centers. least_norm p (centers ! r) (snd (cbs ! r)))"
  using assms(1)
proof (induction centers)
  case Nil
  then show ?case by simp
next
  case (Cons cs centers)
  then obtain cbs where rest: "closest_runs p K centers = Inr cbs"
    and len: "length cbs = length centers"
    and near: "\<forall>r<length centers. least_norm p (centers ! r) (snd (cbs ! r))"
    by auto
  from Cons.prems have K: "length cs = K" by simp
  with closest_scan_run[of cs p] assms(2)
  obtain cl b where scan: "closest_scan p cs [0..<K] (PInf, 0) = Inr (cl, b)"
    and b: "least_norm p cs b"
    by auto
  have "closest_runs p K (cs # centers) = Inr ((cl, b) # cbs)"
    using scan rest by simp
  moreover have "\<forall>r<length (cs # centers). least_norm p ((cs # centers) ! r) (snd (((cl, b) # cbs) ! r))"
    using b near by (auto simp: nth_Cons split: nat.splits)
  ultimately show ?case using len by simp
qed

text \<open>
  Claim C6, as the code has it. For every point and every array of centroids of the
  shape \<open>(RUNS, K, shape)\<close> with \<open>K > 0\<close>, the centroids having the dimension of the
  point, \<^verbatim>\<open>get_closest\<close> returns one index for each run. The index is below \<open>K\<close>; no centroid of the run has a computed distance, the
  float \<^verbatim>\<open>norm(p - centers[idx][j])\<close>, that is less than the computed distance of the
  index; and no centroid of a lower index has a computed distance that is less than
  or equal to it (among equal computed distances the first index is returned). The
  statement is about the floats the code compares, whatever the arithmetic rounds or
  overflows to.
\<close>

theorem get_closest_least_norm:
  assumes "\<forall>cs\<in>set centers. length cs = K" and "0 < K"
    and "\<forall>cs\<in>set centers. \<forall>c\<in>set cs. length c = length p"
  shows "\<exists>best. get_closest p centers = Inr best \<and> length best = length centers \<and>
           (\<forall>r<length centers. best ! r < K \<and>
              (\<forall>j<K. \<not> flt (norm_l2 (vsub p (centers ! r ! j)))
                             (norm_l2 (vsub p (centers ! r ! (best ! r))))) \<and>
              (\<forall>j<best ! r. \<not> fle (norm_l2 (vsub p (centers ! r ! j)))
                                    (norm_l2 (vsub p (centers ! r ! (best ! r))))))"
proof -
  from closest_runs_least[OF assms(1,2), of p]
  obtain cbs where runs: "closest_runs p K centers = Inr cbs"
    and len: "length cbs = length centers"
    and near: "\<forall>r<length centers. least_norm p (centers ! r) (snd (cbs ! r))"
    by blast
  have cab: "closest_and_best p centers = Inr cbs"
  proof (cases centers)
    case Nil
    with runs show ?thesis by (simp add: closest_and_best_def)
  next
    case (Cons cs rest)
    with assms(1) have "length cs = K" by simp
    with Cons runs show ?thesis by (simp add: closest_and_best_def)
  qed
  then have "get_closest p centers = Inr (map snd cbs)"
    by (simp add: get_closest_def)
  moreover have "map snd cbs ! r < K \<and>
      (\<forall>j<K. \<not> flt (norm_l2 (vsub p (centers ! r ! j)))
                     (norm_l2 (vsub p (centers ! r ! (map snd cbs ! r))))) \<and>
      (\<forall>j<map snd cbs ! r. \<not> fle (norm_l2 (vsub p (centers ! r ! j)))
                                   (norm_l2 (vsub p (centers ! r ! (map snd cbs ! r)))))"
    if r: "r < length centers" for r
  proof -
    from r near have "least_norm p (centers ! r) (snd (cbs ! r))" by simp
    moreover from r assms(1) have "length (centers ! r) = K" by simp
    ultimately show ?thesis using r len by (simp add: least_norm_def)
  qed
  ultimately show ?thesis using len by auto
qed

text \<open>
  The point \<open>0\<close> and one run with the centroids \<open>3\<close>, \<open>1\<close> and \<open>-1\<close>: the centroids
  of the indices \<open>1\<close> and \<open>2\<close> are both at the distance \<open>1\<close>, and the index is \<open>1\<close>.
\<close>

theorem get_closest_least_norm_witness:
  "\<exists>best. get_closest [Fin 0] [[[Fin 3], [Fin 1], [Fin (- 1)]]] = Inr best \<and>
     length best = 1 \<and> best ! 0 = 1"
proof -
  let ?cs = "[[[Fin 3], [Fin 1], [Fin (- 1)]]]"
  let ?d = "\<lambda>j. norm_l2 (vsub [Fin 0] (?cs ! 0 ! j))"
  have h: "\<forall>cs\<in>set ?cs. length cs = 3"
    and dims: "\<forall>cs\<in>set ?cs. \<forall>c\<in>set cs. length c = length [Fin 0]" by simp_all
  from get_closest_least_norm[OF h _ dims]
  obtain best where b: "get_closest [Fin 0] ?cs = Inr best"
    "length best = 1" "best ! 0 < 3"
    "\<forall>j<3. \<not> flt (?d j) (?d (best ! 0))"
    "\<forall>j<best ! 0. \<not> fle (?d j) (?d (best ! 0))"
    by auto
  have d: "?d 0 = Fin 3" "?d 1 = Fin 1" "?d 2 = Fin 1"
    by (simp_all add: norm_1d)
  have "best ! 0 = 1"
  proof -
    from b(3) consider "best ! 0 = 0" | "best ! 0 = 1" | "best ! 0 = 2" by linarith
    then show ?thesis
    proof cases
      case 1
      with b(4)[rule_format, of 1] have "\<not> flt (?d 1) (?d 0)" by simp
      with d show ?thesis by simp
    next
      case 2
      then show ?thesis .
    next
      case 3
      with b(5)[rule_format, of 1] have "\<not> fle (?d 1) (?d 2)" by simp
      with d show ?thesis by (simp add: fle_def)
    qed
  qed
  with b(1,2) show ?thesis by blast
qed

text \<open>
  Claim C6 as the specification states it fails. The point is \<open>10^200\<close> and the run has
  the centroids \<open>-10^200\<close> and \<open>0\<close>. The second centroid is the nearer one: its
  Euclidean distance is \<open>10^200\<close>, the distance of the first one is \<open>2 * 10^200\<close>. Both
  squares overflow, both computed norms are \<open>inf\<close>, \<open>inf < inf\<close> is false, and
  \<^verbatim>\<open>get_closest\<close> returns the index \<open>0\<close>.
\<close>

theorem get_closest_spec_nearest_counterexample:
  "get_closest [Fin ex_far] [[[Fin (- ex_far)], [Fin 0]]] = Inr [0] \<and>
   norm_l2 (vsub [Fin ex_far] [Fin (- ex_far)]) = PInf \<and>
   norm_l2 (vsub [Fin ex_far] [Fin 0]) = PInf \<and>
   euclid [ex_far] [0] < euclid [ex_far] [- ex_far]"
proof -
  have n0: "norm_l2 (vsub [Fin ex_far] [Fin (- ex_far)]) = PInf"
    by (simp add: ex_far_def norm_l2_def vsub_def fsub_def fsq_def ovf_def overflow_bound_def)
  have n1: "norm_l2 (vsub [Fin ex_far] [Fin 0]) = PInf"
    by (simp add: ex_far_def norm_l2_def vsub_def fsub_def fsq_def ovf_def overflow_bound_def)
  have "get_closest [Fin ex_far] [[[Fin (- ex_far)], [Fin 0]]] = Inr [0]"
    by (simp add: get_closest_def closest_and_best_def upt_rec n0 n1)
  moreover have "euclid [ex_far] [0] < euclid [ex_far] [- ex_far]"
    by (simp add: euclid_1d ex_far_def)
  ultimately show ?thesis using n0 n1 by simp
qed

lemma closest_runs_no_centroids:
  "closest_runs p 0 centers = Inr (replicate (length centers) (PInf, 0))"
  by (induction centers) auto

text \<open>
  Claim C7, as the code has it. When the centroid sets are empty (\<open>K = 0\<close>),
  \<^verbatim>\<open>get_closest\<close> raises nothing: its inner loop runs over \<^verbatim>\<open>range(0)\<close>, and it
  returns the initial list \<^verbatim>\<open>best\<close>, the index \<open>0\<close> for every run.
\<close>

theorem get_closest_no_centroids:
  assumes "\<forall>cs\<in>set centers. cs = []"
  shows "get_closest p centers = Inr (replicate (length centers) 0)"
proof (cases centers)
  case Nil
  then show ?thesis by (simp add: get_closest_def closest_and_best_def)
next
  case (Cons cs0 rest)
  with assms have "cs0 = []" by simp
  with Cons show ?thesis
    using closest_runs_no_centroids[of p centers]
    by (simp add: get_closest_def closest_and_best_def map_replicate)
qed

theorem get_closest_no_centroids_witness:
  "get_closest [Fin 2] [[], [], []] = Inr [0, 0, 0]"
proof -
  have "\<forall>cs\<in>set [[], [], []::vec list]. cs = []" by simp
  from get_closest_no_centroids[OF this, of "[Fin 2]"] show ?thesis
    by (simp add: numeral_3_eq_3)
qed

text \<open>
  Claim C7 as the specification states it fails: for one run with no centroid,
  \<^verbatim>\<open>get_closest\<close> returns the list \<open>[0]\<close>, and no fault.
\<close>

theorem get_closest_spec_counterexample:
  "get_closest [Fin 1] [[]] = Inr [0] \<and> (\<forall>e. get_closest [Fin 1] [[]] \<noteq> Inl e)"
  by (simp add: get_closest_def closest_and_best_def)

subsection \<open>The objective\<close>

text \<open>The parameter \<^verbatim>\<open>centers\<close> of \<^verbatim>\<open>get_cost\<close> has no part in its result.\<close>

lemma get_cost_ignores_centers:
  "get_cost centroids rdd centers = get_cost centroids rdd centers'"
  by (simp add: get_cost_def)

text \<open>
  Claim C1 fails on the code at this input. The one point \<open>[1]\<close> is the one centroid
  of the collection \<open>[[[1]]]\<close> that is passed as the argument \<^verbatim>\<open>centers\<close>, so the
  cost of the claim is \<open>[0]\<close>. The notebook's global \<^verbatim>\<open>centroids\<close> is \<open>[[[0]]]\<close>, and
  \<^verbatim>\<open>get_cost\<close> returns \<open>[1]\<close>, the cost for the global. With the same two arguments
  and the global \<open>[[[1]]]\<close> it returns \<open>[0]\<close>: the result is not a function of the two
  arguments.
\<close>

theorem get_cost_reads_global:
  "get_cost [[[Fin 0]]] [(''a'', [Fin 1])] [[[Fin 1]]] = Inr (Vector [Fin 1]) \<and>
   get_cost [[[Fin 1]]] [(''a'', [Fin 1])] [[[Fin 1]]] = Inr (Vector [Fin 0])"
  by (simp add: get_cost_def get_cost_inner_def closest_and_best_def norm_1d sum_axis0_def fsq_def
      ovf_small)

subsection \<open>The refiner\<close>

subsubsection \<open>The example run\<close>

text \<open>
  The seeding of the example, its first iteration (the centroids move to \<open>20\<close>, \<open>38\<close>
  and \<open>1\<close>) and its second iteration, where no point is nearest to the centroid
  \<open>20\<close>.
\<close>

lemma ex_state: "init_state ex_rng ex_rdd 3 1 =
   Inr ([[[Fin 10], [Fin 0], [Fin 0]]], [[PInf, PInf, PInf, PInf, PInf, PInf]], (1/2) ## sconst 0)"
  by (simp add: init_state_def ex_rng_def ex_rdd_def Let_def eval_nat_numeral)

lemma ex_init: "kmeans_init ex_rng ex_rdd 3 1 seed = Inr ([[[Fin 10], [Fin 51], [Fin 1]]], sconst 0)"
  unfolding kmeans_init_def ex_state
  by (simp add: ex_rdd_def upt_rec Let_def update_D_def enumerate_eq_zip
     update_dist_def norm_1d transpose_np_def npmin2_def fsq_def normalize_rows_def choice_def
     choice_with_def fgt_def ovf_small)

lemma ex_closest1: "map_collect (\<lambda>x. get_closest (snd x) [[[Fin 10], [Fin 51], [Fin 1]]]) ex_rdd
   = Inr [[2], [0], [0], [1], [1], [1]]"
  by (simp add: ex_rdd_def get_closest_def closest_and_best_def upt_rec norm_1d)

lemma ex_body1: "kmeans_body ex_rdd (map snd ex_rdd) 3 1 [[[Fin 10], [Fin 51], [Fin 1]]]
   = Inr (Fin 23, [[[Fin 20], [Fin 38], [Fin 1]]])"
  unfolding kmeans_body_def ex_closest1
  by (simp add: ex_rdd_def max_shift_def update_points_def new_point_def each_set_def mean_axis0_def
      enumerate_eq_zip upt_rec norm_1d npmax2_def run_shift_def ovf_small)

lemma ex_closest2: "map_collect (\<lambda>x. get_closest (snd x) [[[Fin 20], [Fin 38], [Fin 1]]]) ex_rdd
   = Inr [[2], [2], [1], [1], [1], [1]]"
  by (simp add: ex_rdd_def get_closest_def closest_and_best_def upt_rec norm_1d)

lemma ex_body2: "kmeans_body ex_rdd (map snd ex_rdd) 3 1 [[[Fin 20], [Fin 38], [Fin 1]]]
   = Inr (NaN, [[[NaN], [Fin 36], [Fin (11/2)]]])"
  unfolding kmeans_body_def ex_closest2
  by (simp add: ex_rdd_def max_shift_def update_points_def new_point_def each_set_def mean_axis0_def
      enumerate_eq_zip upt_rec norm_1d npmax2_def norm_l2_def fsub_def fsq_def run_shift_def
      ovf_small)

subsubsection \<open>The loop\<close>

text \<open>A shift that is not-a-number ends the loop.\<close>

lemma kmeans_loop_NaN:
  "kmeans_loop rdd local_data K RUNS converge_dist (NaN, iters, k_points) =
     Some (Inr (NaN, iters, k_points))"
  by (subst kmeans_loop.simps) (simp add: fgt_def flt_NaN)

lemma fle_not_fgt: "fle x y \<Longrightarrow> \<not> fgt x y"
  by (simp add: fle_def fgt_def)

text \<open>
  Claim C10. When \<^verbatim>\<open>converge_dist\<close> is at least \<open>1.0\<close>, the loop of \<^verbatim>\<open>kmeans\<close> is not
  entered: \<^verbatim>\<open>temp_dist\<close> is still its initial \<open>1.0\<close> and \<^verbatim>\<open>iters\<close> is \<open>0\<close> at the end,
  and \<^verbatim>\<open>kmeans\<close> returns the array of \<^verbatim>\<open>kmeans_init\<close> as it is (or fails as
  \<^verbatim>\<open>kmeans_init\<close> does).
\<close>

theorem kmeans_no_iteration:
  assumes "fle (Fin 1) converge_dist"
  shows "kmeans_run g rdd K RUNS converge_dist seed =
           (case kmeans_init g rdd K RUNS seed of
              Inl e \<Rightarrow> Some (Inl e)
            | Inr (k_points, g') \<Rightarrow> Some (Inr (Fin 1, 0, k_points))) \<and>
         kmeans g rdd K RUNS converge_dist seed =
           Some (map_sum id fst (kmeans_init g rdd K RUNS seed))"
proof -
  from assms have "\<not> fgt (Fin 1) converge_dist" by (rule fle_not_fgt)
  then have loop: "kmeans_loop rdd (map snd rdd) K RUNS converge_dist (Fin 1, 0, kp) =
      Some (Inr (Fin 1, 0, kp))" for kp
    by (subst kmeans_loop.simps) simp
  show ?thesis
    by (simp add: kmeans_def kmeans_run_def loop split: sum.split prod.split)
qed


text \<open>The example with the thresholds \<open>1.0\<close> and \<open>inf\<close>.\<close>

theorem kmeans_no_iteration_witness:
  "kmeans_run ex_rng ex_rdd 3 1 (Fin 1) 0 = Some (Inr (Fin 1, 0, [[[Fin 10], [Fin 51], [Fin 1]]])) \<and>
   kmeans ex_rng ex_rdd 3 1 PInf 0 = Some (Inr [[[Fin 10], [Fin 51], [Fin 1]]])"
proof -
  have "fle (Fin 1) (Fin 1)" and "fle (Fin 1) PInf" by (simp_all add: fle_def)
  from kmeans_no_iteration[OF this(1), of ex_rng ex_rdd 3 1 0]
       kmeans_no_iteration[OF this(2), of ex_rng ex_rdd 3 1 0]
  show ?thesis by (simp add: ex_init del: One_nat_def)
qed

subsubsection \<open>A cluster without points\<close>

lemma npsum_NaN: "NaN \<in> set xs \<Longrightarrow> npsum xs = NaN"
proof (induction xs)
  case Nil
  then show ?case by simp
next
  case (Cons x xs)
  show ?case
  proof (cases "x = NaN")
    case True
    then show ?thesis by simp
  next
    case False
    with Cons have "npsum xs = NaN" by simp
    then show ?thesis by (cases x) simp_all
  qed
qed

lemma npmax2_NaN: "npmax2 NaN y = NaN" "npmax2 x NaN = NaN"
  by (simp_all add: npmax2_def)

lemma foldl_npmax2_NaN_acc: "foldl npmax2 NaN xs = NaN"
  by (induction xs) (simp_all add: npmax2_NaN)

lemma foldl_npmax2_NaN: "NaN \<in> set xs \<Longrightarrow> foldl npmax2 a xs = NaN"
proof (induction xs arbitrary: a)
  case Nil
  then show ?case by simp
next
  case (Cons x xs)
  show ?case
  proof (cases "x = NaN")
    case True
    then show ?thesis by (simp add: npmax2_NaN foldl_npmax2_NaN_acc)
  next
    case False
    with Cons show ?thesis by simp
  qed
qed

lemma np_max_NaN: "NaN \<in> set xs \<Longrightarrow> np_max xs = Inr NaN"
proof (cases xs)
  case Nil
  assume "NaN \<in> set xs"
  with Nil show ?thesis by simp
next
  case (Cons x ys)
  assume "NaN \<in> set xs"
  with Cons show ?thesis
    by (cases "x = NaN") (auto simp: foldl_npmax2_NaN foldl_npmax2_NaN_acc)
qed

lemma fsub_NaN: "fsub a NaN = NaN"
  by (cases a) (simp_all add: fsub_def)

lemma norm_l2_sub_NaN: "v \<noteq> [] \<Longrightarrow> norm_l2 (sub_array v (Scalar NaN)) = NaN"
proof -
  assume "v \<noteq> []"
  then have "NaN \<in> set (map fsq (sub_array v (Scalar NaN)))"
    by (cases v) (simp_all add: fsub_NaN fsq_def)
  then show ?thesis by (simp only: norm_l2_def npsum_NaN fsqrt.simps)
qed

lemma each_set_empty:
  assumes "\<forall>x<length local_data. cluster ! x ! i \<noteq> j"
  shows "each_set local_data cluster i j = []"
proof -
  have "filter (\<lambda>(x, y). cluster ! x ! i = j) (enumerate 0 local_data) = []"
    using assms by (auto simp: filter_empty_conv in_set_enumerate_eq)
  then show ?thesis by (simp add: each_set_def)
qed


text \<open>
  Claim C2, as the code has it. When no point is assigned to the cluster \<open>j\<close> of the
  run \<open>i\<close> in an iteration, the entry of \<^verbatim>\<open>new_points\<close> for \<open>(i, j)\<close> is the mean of an
  empty array, the number not-a-number, and the iteration assigns it: every
  coordinate of the new centroid \<open>(i, j)\<close> is not-a-number (the previous centroid is
  not kept and the slot is not reseeded). When the centroids have a coordinate, the
  \<^verbatim>\<open>temp_dist\<close> of the iteration is not-a-number, too.
\<close>

theorem empty_cluster_nan:
  assumes "map_collect (\<lambda>x. get_closest (snd x) k_points) rdd = Inr cluster"
    and "kmeans_body rdd local_data K RUNS k_points = Inr (temp_dist, k_points')"
    and "i < RUNS" and "j < K"
    and "\<forall>x<length local_data. cluster ! x ! i \<noteq> j"
  shows "new_point local_data cluster i j = Scalar NaN \<and>
         k_points' ! i ! j = replicate (length (k_points ! i ! j)) NaN \<and>
         (k_points ! i ! j \<noteq> [] \<longrightarrow> temp_dist = NaN)"
proof -
  have np: "new_point local_data cluster i j = Scalar NaN"
    using each_set_empty[OF assms(5)] by (simp add: new_point_def mean_axis0_def)
  from assms(1,2) have ms: "max_shift K RUNS k_points (new_point local_data cluster) = Inr temp_dist"
    and up: "k_points' = update_points K RUNS k_points (new_point local_data cluster)"
    by (auto simp: kmeans_body_def split: sum.splits)
  have row: "k_points' ! i ! j = replicate (length (k_points ! i ! j)) NaN"
    using assms(3,4) np by (simp add: up update_points_def)
  have "temp_dist = NaN" if ne: "k_points ! i ! j \<noteq> []"
  proof -
    let ?f = "run_shift K k_points (new_point local_data cluster)"
    have "norm_l2 (sub_array (k_points ! i ! j) (new_point local_data cluster i j)) = NaN"
      by (simp only: np norm_l2_sub_NaN[OF ne])
    then have "NaN \<in> set (map (\<lambda>j. norm_l2 (sub_array (k_points ! i ! j)
                 (new_point local_data cluster i j))) [0..<K])"
      using assms(4) by (force simp: image_iff)
    then have "?f i = NaN" unfolding run_shift_def by (rule npsum_NaN)
    then have "NaN \<in> set (map ?f [0..<RUNS])"
      using assms(3) by (force simp: image_iff)
    then have "np_max (map ?f [0..<RUNS]) = Inr NaN" by (rule np_max_NaN)
    with ms show ?thesis by (simp add: max_shift_def)
  qed
  with np row show ?thesis by blast
qed


text \<open>
  Two points and one run with twice the centroid \<open>[0]\<close>: both points are assigned to
  the index \<open>0\<close>, and the centroid of the index \<open>1\<close> becomes not-a-number.
\<close>

theorem empty_cluster_nan_witness:
  "\<exists>temp_dist k_points'.
     kmeans_body [(''a'', [Fin 0]), (''b'', [Fin 1])] [[Fin 0], [Fin 1]] 2 1 [[[Fin 0], [Fin 0]]] =
       Inr (temp_dist, k_points') \<and>
     new_point [[Fin 0], [Fin 1]] [[0], [0]] 0 1 = Scalar NaN \<and>
     k_points' ! 0 ! 1 = [NaN] \<and> temp_dist = NaN"
proof -
  let ?rdd = "[(''a'', [Fin 0]), (''b'', [Fin 1])]" and ?ld = "[[Fin 0], [Fin 1]]"
  let ?kp = "[[[Fin 0], [Fin 0]]]"
  have cl: "map_collect (\<lambda>x. get_closest (snd x) ?kp) ?rdd = Inr [[0], [0]]"
    by (simp add: get_closest_def closest_and_best_def upt_rec norm_1d)
  obtain temp_dist k_points' where
    body: "kmeans_body ?rdd ?ld 2 1 ?kp = Inr (temp_dist, k_points')"
    unfolding kmeans_body_def cl by (simp add: max_shift_def upt_rec)
  have none: "\<forall>x<length ?ld. [[0], [0]] ! x ! 0 \<noteq> (1::nat)"
    by (simp add: less_Suc_eq numeral_2_eq_2)
  from empty_cluster_nan[OF cl body _ _ none] body show ?thesis by simp
qed

text \<open>
  Claim C2 as the specification states it fails, on the example: \<^verbatim>\<open>kmeans\<close> with
  the threshold \<open>0.1\<close> seeds the centroids \<open>10\<close>, \<open>51\<close> and \<open>1\<close>, moves them to \<open>20\<close>,
  \<open>38\<close> and \<open>1\<close>, and in its second iteration no point is assigned to the cluster \<open>0\<close>
  (the list gives the index of every point). The iteration assigns not-a-number
  to that centroid, and \<^verbatim>\<open>kmeans\<close> returns it.
\<close>

theorem empty_cluster_spec_counterexample:
  "kmeans_init ex_rng ex_rdd 3 1 0 = Inr ([[[Fin 10], [Fin 51], [Fin 1]]], sconst 0) \<and>
   kmeans_body ex_rdd (map snd ex_rdd) 3 1 [[[Fin 10], [Fin 51], [Fin 1]]] =
     Inr (Fin 23, [[[Fin 20], [Fin 38], [Fin 1]]]) \<and>
   map_collect (\<lambda>x. get_closest (snd x) [[[Fin 20], [Fin 38], [Fin 1]]]) ex_rdd =
     Inr [[2], [2], [1], [1], [1], [1]] \<and>
   kmeans_body ex_rdd (map snd ex_rdd) 3 1 [[[Fin 20], [Fin 38], [Fin 1]]] =
     Inr (NaN, [[[NaN], [Fin 36], [Fin (11/2)]]]) \<and>
   kmeans ex_rng ex_rdd 3 1 (Fin (1/10)) 0 = Some (Inr [[[NaN], [Fin 36], [Fin (11/2)]]])"
proof -
  have "kmeans ex_rng ex_rdd 3 1 (Fin (1/10)) 0 = Some (Inr [[[NaN], [Fin 36], [Fin (11/2)]]])"
    unfolding kmeans_def kmeans_run_def ex_init
    apply (simp only: sum.case prod.case)
    apply (subst kmeans_loop.simps)
    apply (simp only: prod.case ex_body1 sum.case)
    apply (subst kmeans_loop.simps)
    apply (simp only: prod.case ex_body2 sum.case)
    apply (simp only: kmeans_loop_NaN)
    apply (simp add: fgt_def)
    done
  with ex_init ex_body1 ex_closest2 ex_body2 show ?thesis by blast
qed

subsubsection \<open>The shift of an iteration\<close>

text \<open>
  The maximum of numpy on numbers none of which is not-a-number is one of them, and
  none of them is greater.
\<close>

lemma fle_trans: "fle x y \<Longrightarrow> fle y z \<Longrightarrow> fle x z"
  by (cases x; cases y; cases z; simp add: fle_def)

lemma npmax2_greatest:
  "x \<noteq> NaN \<Longrightarrow> y \<noteq> NaN \<Longrightarrow>
   (npmax2 x y = x \<or> npmax2 x y = y) \<and> fle x (npmax2 x y) \<and> fle y (npmax2 x y)"
  by (cases x; cases y; simp add: npmax2_def fle_def)

lemma foldl_npmax2_greatest:
  "a \<noteq> NaN \<Longrightarrow> NaN \<notin> set xs \<Longrightarrow>
   foldl npmax2 a xs \<in> set (a # xs) \<and> (\<forall>x\<in>set (a # xs). fle x (foldl npmax2 a xs))"
proof (induction xs arbitrary: a)
  case Nil
  then show ?case by (simp add: fle_def flt_irrefl)
next
  case (Cons x xs)
  let ?b = "npmax2 a x" and ?m = "foldl npmax2 (npmax2 a x) xs"
  from Cons.prems have nn: "a \<noteq> NaN" "x \<noteq> NaN" "NaN \<notin> set xs" by auto
  from npmax2_greatest[OF nn(1,2)]
  have b: "?b = a \<or> ?b = x" "fle a ?b" "fle x ?b" by auto
  from b(2) have "?b \<noteq> NaN" by (simp add: fle_def)
  from Cons.IH[OF this nn(3)]
  have ih: "?m \<in> set (?b # xs)" "\<forall>y\<in>set (?b # xs). fle y ?m" by auto
  from ih(2) have bm: "fle ?b ?m" by simp
  have "fle a ?m" using b(2) bm by (rule fle_trans)
  moreover have "fle x ?m" using b(3) bm by (rule fle_trans)
  moreover have "\<forall>y\<in>set xs. fle y ?m" using ih(2) by simp
  moreover have "?m \<in> set (a # x # xs)" using ih(1) b(1) by auto
  ultimately show ?case by simp
qed

lemma np_max_greatest:
  assumes "np_max xs = Inr m" and "NaN \<notin> set xs"
  shows "m \<in> set xs \<and> (\<forall>x\<in>set xs. fle x m)"
proof (cases xs)
  case Nil
  with assms(1) show ?thesis by simp
next
  case (Cons a ys)
  with assms have "a \<noteq> NaN" "NaN \<notin> set ys" "m = foldl npmax2 a ys" by auto
  with foldl_npmax2_greatest[of a ys] Cons show ?thesis by simp
qed

text \<open>
  Claim C8, as the code has it. An iteration of \<^verbatim>\<open>kmeans\<close> that returns computes,
  for every run, the sum over the \<open>K\<close> clusters of the norms \<^verbatim>\<open>norm(old - new)\<close>
  between the old centroid and the new point, in floats. When the sum of some run is
  not-a-number, \<^verbatim>\<open>temp_dist\<close> is not-a-number, whatever the sums of the other runs
  are. Otherwise \<^verbatim>\<open>temp_dist\<close> is the sum of one of the runs, and the sum of no run
  is greater. The loop goes on to the next iteration exactly when \<^verbatim>\<open>temp_dist\<close> is
  greater than \<^verbatim>\<open>converge_dist\<close>; it ends when \<^verbatim>\<open>temp_dist\<close> is at most
  \<^verbatim>\<open>converge_dist\<close>, and also when \<^verbatim>\<open>temp_dist\<close> is not-a-number.
\<close>

theorem kmeans_shift_computed:
  assumes "map_collect (\<lambda>x. get_closest (snd x) k_points) rdd = Inr cluster"
    and "kmeans_body rdd local_data K RUNS k_points = Inr (temp_dist, k_points')"
  shows "(if \<exists>r<RUNS. run_shift K k_points (new_point local_data cluster) r = NaN
          then temp_dist = NaN
          else (\<exists>r<RUNS. temp_dist = run_shift K k_points (new_point local_data cluster) r) \<and>
               (\<forall>r<RUNS. fle (run_shift K k_points (new_point local_data cluster) r) temp_dist)) \<and>
         kmeans_loop rdd local_data K RUNS converge_dist (temp_dist, iters, k_points') =
           (if fgt temp_dist converge_dist
            then (case kmeans_body rdd local_data K RUNS k_points' of
                    Inl e \<Rightarrow> Some (Inl e)
                  | Inr (temp_dist', k_points'') \<Rightarrow>
                      kmeans_loop rdd local_data K RUNS converge_dist
                        (temp_dist', iters + 1, k_points''))
            else Some (Inr (temp_dist, iters, k_points'))) \<and>
         (fle temp_dist converge_dist \<or> temp_dist = NaN \<longrightarrow>
            kmeans_loop rdd local_data K RUNS converge_dist (temp_dist, iters, k_points') =
              Some (Inr (temp_dist, iters, k_points')))"
proof -
  let ?f = "run_shift K k_points (new_point local_data cluster)"
  from assms have ms: "np_max (map ?f [0..<RUNS]) = Inr temp_dist"
    by (auto simp: kmeans_body_def max_shift_def split: sum.splits)
  have metric: "if \<exists>r<RUNS. ?f r = NaN then temp_dist = NaN
     else (\<exists>r<RUNS. temp_dist = ?f r) \<and> (\<forall>r<RUNS. fle (?f r) temp_dist)"
  proof (cases "\<exists>r<RUNS. ?f r = NaN")
    case True
    then have "NaN \<in> set (map ?f [0..<RUNS])" by (force simp: image_iff)
    then have "np_max (map ?f [0..<RUNS]) = Inr NaN" by (rule np_max_NaN)
    with ms True show ?thesis by simp
  next
    case False
    then have "NaN \<notin> set (map ?f [0..<RUNS])" by (force simp: image_iff)
    from np_max_greatest[OF ms this]
    have m: "temp_dist \<in> set (map ?f [0..<RUNS])"
      and g: "\<forall>x\<in>set (map ?f [0..<RUNS]). fle x temp_dist" by auto
    from m have "\<exists>r<RUNS. temp_dist = ?f r" by auto
    moreover from g have "\<forall>r<RUNS. fle (?f r) temp_dist" by simp
    ultimately show ?thesis unfolding if_not_P[OF False] by blast
  qed
  have loop: "kmeans_loop rdd local_data K RUNS converge_dist (temp_dist, iters, k_points') =
           (if fgt temp_dist converge_dist
            then (case kmeans_body rdd local_data K RUNS k_points' of
                    Inl e \<Rightarrow> Some (Inl e)
                  | Inr (temp_dist', k_points'') \<Rightarrow>
                      kmeans_loop rdd local_data K RUNS converge_dist
                        (temp_dist', iters + 1, k_points''))
            else Some (Inr (temp_dist, iters, k_points')))"
    by (subst kmeans_loop.simps) simp
  have ends: "kmeans_loop rdd local_data K RUNS converge_dist (temp_dist, iters, k_points') =
      Some (Inr (temp_dist, iters, k_points'))"
    if "fle temp_dist converge_dist \<or> temp_dist = NaN"
  proof -
    from that have "\<not> fgt temp_dist converge_dist"
      by (auto simp: fle_def fgt_def flt_NaN)
    then show ?thesis by (subst kmeans_loop.simps) simp
  qed
  from metric loop ends show ?thesis by blast
qed

text \<open>
  The example with two runs: \<^verbatim>\<open>kmeans_init\<close> picks \<open>10\<close>, \<open>51\<close>, \<open>1\<close> and \<open>30\<close>, \<open>10\<close>,
  \<open>32\<close>. The first iteration moves the centroids to \<open>20\<close>, \<open>38\<close>, \<open>1\<close> (a sum of \<open>23\<close>)
  and to \<open>30.5\<close>, \<open>5.5\<close>, \<open>41.5\<close> (a sum of \<open>14.5\<close>). In the second iteration no point
  is nearest to the centroid \<open>20\<close> of the run \<open>0\<close>, and the centroids of the run \<open>1\<close>
  move to \<open>31\<close>, \<open>5.5\<close>, \<open>51\<close> (a sum of \<open>10\<close>).
\<close>

lemma ex2_state: "init_state ex_rng2 ex_rdd 3 2 =
   Inr ([[[Fin 10], [Fin 0], [Fin 0]], [[Fin 30], [Fin 0], [Fin 0]]],
        [[PInf, PInf, PInf, PInf, PInf, PInf], [PInf, PInf, PInf, PInf, PInf, PInf]],
        (1/2) ## (3/5) ## 0 ## (4/25) ## sconst 0)"
  by (simp add: init_state_def ex_rng2_def ex_rdd_def Let_def eval_nat_numeral)

lemma ex2_init: "kmeans_init ex_rng2 ex_rdd 3 2 seed =
   Inr ([[[Fin 10], [Fin 51], [Fin 1]], [[Fin 30], [Fin 10], [Fin 32]]], sconst 0)"
  unfolding kmeans_init_def ex2_state
  by (simp add: ex_rdd_def upt_rec Let_def update_D_def enumerate_eq_zip
     update_dist_def norm_1d transpose_np_def npmin2_def fsq_def normalize_rows_def choice_def
     choice_with_def fgt_def ovf_small)

lemma ex2_closest1:
  "map_collect (\<lambda>x. get_closest (snd x)
      [[[Fin 10], [Fin 51], [Fin 1]], [[Fin 30], [Fin 10], [Fin 32]]]) ex_rdd
   = Inr [[2, 1], [0, 1], [0, 0], [1, 0], [1, 2], [1, 2]]"
  by (simp add: ex_rdd_def get_closest_def closest_and_best_def upt_rec norm_1d)

lemma ex2_shift1:
  "run_shift 3 [[[Fin 10], [Fin 51], [Fin 1]], [[Fin 30], [Fin 10], [Fin 32]]]
     (new_point (map snd ex_rdd) [[2, 1], [0, 1], [0, 0], [1, 0], [1, 2], [1, 2]]) 0 = Fin 23"
  "run_shift 3 [[[Fin 10], [Fin 51], [Fin 1]], [[Fin 30], [Fin 10], [Fin 32]]]
     (new_point (map snd ex_rdd) [[2, 1], [0, 1], [0, 0], [1, 0], [1, 2], [1, 2]]) 1 = Fin (29/2)"
  by (simp_all add: ex_rdd_def new_point_def each_set_def mean_axis0_def
      enumerate_eq_zip upt_rec norm_1d run_shift_def ovf_small del: One_nat_def)

lemma ex2_body1:
  "kmeans_body ex_rdd (map snd ex_rdd) 3 2
      [[[Fin 10], [Fin 51], [Fin 1]], [[Fin 30], [Fin 10], [Fin 32]]]
   = Inr (Fin 23, [[[Fin 20], [Fin 38], [Fin 1]], [[Fin (61/2)], [Fin (11/2)], [Fin (83/2)]]])"
  unfolding kmeans_body_def ex2_closest1
  by (simp add: ex_rdd_def max_shift_def update_points_def new_point_def each_set_def mean_axis0_def
      enumerate_eq_zip upt_rec norm_1d npmax2_def run_shift_def ovf_small)

lemma ex2_closest2:
  "map_collect (\<lambda>x. get_closest (snd x)
      [[[Fin 20], [Fin 38], [Fin 1]], [[Fin (61/2)], [Fin (11/2)], [Fin (83/2)]]]) ex_rdd
   = Inr [[2, 1], [2, 1], [1, 0], [1, 0], [1, 0], [1, 2]]"
  by (simp add: ex_rdd_def get_closest_def closest_and_best_def upt_rec norm_1d)

lemma ex2_shift2:
  "run_shift 3 [[[Fin 20], [Fin 38], [Fin 1]], [[Fin (61/2)], [Fin (11/2)], [Fin (83/2)]]]
     (new_point (map snd ex_rdd) [[2, 1], [2, 1], [1, 0], [1, 0], [1, 0], [1, 2]]) 0 = NaN"
  "run_shift 3 [[[Fin 20], [Fin 38], [Fin 1]], [[Fin (61/2)], [Fin (11/2)], [Fin (83/2)]]]
     (new_point (map snd ex_rdd) [[2, 1], [2, 1], [1, 0], [1, 0], [1, 0], [1, 2]]) 1 = Fin 10"
  by (simp add: ex_rdd_def new_point_def each_set_def mean_axis0_def
      enumerate_eq_zip upt_rec norm_1d run_shift_def norm_l2_def fsub_def fsq_def ovf_small
      del: One_nat_def)
     (simp add: ex_rdd_def new_point_def each_set_def mean_axis0_def
      enumerate_eq_zip upt_rec norm_1d run_shift_def ovf_small del: One_nat_def)

lemma ex2_body2:
  "kmeans_body ex_rdd (map snd ex_rdd) 3 2
      [[[Fin 20], [Fin 38], [Fin 1]], [[Fin (61/2)], [Fin (11/2)], [Fin (83/2)]]]
   = Inr (NaN, [[[NaN], [Fin 36], [Fin (11/2)]], [[Fin 31], [Fin (11/2)], [Fin 51]]])"
  unfolding kmeans_body_def ex2_closest2
  by (simp add: ex_rdd_def max_shift_def update_points_def new_point_def each_set_def mean_axis0_def
      enumerate_eq_zip upt_rec norm_1d npmax2_def norm_l2_def fsub_def fsq_def run_shift_def
      ovf_small)

text \<open>
  The first iteration of the example: the sums of the two runs are \<open>23\<close> and \<open>14.5\<close>,
  and \<^verbatim>\<open>temp_dist\<close> is \<open>23\<close>. With the threshold \<open>0.1\<close> the loop goes on to the second
  iteration, whose \<^verbatim>\<open>temp_dist\<close> is not-a-number, and ends there; with the threshold
  \<open>23\<close> it ends after the first.
\<close>

theorem kmeans_shift_computed_witness:
  "kmeans_body ex_rdd (map snd ex_rdd) 3 2
      [[[Fin 10], [Fin 51], [Fin 1]], [[Fin 30], [Fin 10], [Fin 32]]] =
     Inr (Fin 23, [[[Fin 20], [Fin 38], [Fin 1]], [[Fin (61/2)], [Fin (11/2)], [Fin (83/2)]]]) \<and>
   run_shift 3 [[[Fin 10], [Fin 51], [Fin 1]], [[Fin 30], [Fin 10], [Fin 32]]]
     (new_point (map snd ex_rdd) [[2, 1], [0, 1], [0, 0], [1, 0], [1, 2], [1, 2]]) 0 = Fin 23 \<and>
   run_shift 3 [[[Fin 10], [Fin 51], [Fin 1]], [[Fin 30], [Fin 10], [Fin 32]]]
     (new_point (map snd ex_rdd) [[2, 1], [0, 1], [0, 0], [1, 0], [1, 2], [1, 2]]) 1 = Fin (29/2) \<and>
   fle (Fin (29/2)) (Fin 23) \<and>
   kmeans_loop ex_rdd (map snd ex_rdd) 3 2 (Fin (1/10))
      (Fin 23, 1, [[[Fin 20], [Fin 38], [Fin 1]], [[Fin (61/2)], [Fin (11/2)], [Fin (83/2)]]]) =
     Some (Inr (NaN, 2, [[[NaN], [Fin 36], [Fin (11/2)]], [[Fin 31], [Fin (11/2)], [Fin 51]]])) \<and>
   kmeans_loop ex_rdd (map snd ex_rdd) 3 2 (Fin 23)
      (Fin 23, 1, [[[Fin 20], [Fin 38], [Fin 1]], [[Fin (61/2)], [Fin (11/2)], [Fin (83/2)]]]) =
     Some (Inr (Fin 23, 1, [[[Fin 20], [Fin 38], [Fin 1]], [[Fin (61/2)], [Fin (11/2)], [Fin (83/2)]]]))"
proof -
  note t1 = kmeans_shift_computed[OF ex2_closest1 ex2_body1, of "Fin (1/10)" 1]
  note t2 = kmeans_shift_computed[OF ex2_closest1 ex2_body1, of "Fin 23" 1]
  have gt: "fgt (Fin 23) (Fin (1/10))" and le: "fle (Fin 23) (Fin 23)"
    and le2: "fle (Fin (29/2)) (Fin 23)"
    by (simp_all add: fgt_def fle_def)
  from t1 gt have "kmeans_loop ex_rdd (map snd ex_rdd) 3 2 (Fin (1/10))
      (Fin 23, 1, [[[Fin 20], [Fin 38], [Fin 1]], [[Fin (61/2)], [Fin (11/2)], [Fin (83/2)]]]) =
     Some (Inr (NaN, 2, [[[NaN], [Fin 36], [Fin (11/2)]], [[Fin 31], [Fin (11/2)], [Fin 51]]]))"
    by (simp add: ex2_body2 kmeans_loop_NaN del: One_nat_def)
  moreover from t2 le have "kmeans_loop ex_rdd (map snd ex_rdd) 3 2 (Fin 23)
      (Fin 23, 1, [[[Fin 20], [Fin 38], [Fin 1]], [[Fin (61/2)], [Fin (11/2)], [Fin (83/2)]]]) =
     Some (Inr (Fin 23, 1, [[[Fin 20], [Fin 38], [Fin 1]], [[Fin (61/2)], [Fin (11/2)], [Fin (83/2)]]]))"
    by blast
  ultimately show ?thesis using ex2_body1 ex2_shift1 le2 by blast
qed

text \<open>
  Claim C8 as the specification states it fails, on the example with two runs and
  the threshold \<open>0.1\<close>. In the second iteration the centroids of the run \<open>1\<close> move by
  \<open>10\<close> in total, which is more than the threshold, so the maximum over the runs of
  the summed distances has not fallen to the threshold. The sum of the run \<open>0\<close> is
  not-a-number, \<^verbatim>\<open>temp_dist\<close> is not-a-number and not at most the threshold, and the
  loop ends: \<^verbatim>\<open>kmeans\<close> returns the centroids of that iteration.
\<close>

theorem kmeans_shift_spec_counterexample:
  "kmeans_init ex_rng2 ex_rdd 3 2 0 =
     Inr ([[[Fin 10], [Fin 51], [Fin 1]], [[Fin 30], [Fin 10], [Fin 32]]], sconst 0) \<and>
   kmeans_body ex_rdd (map snd ex_rdd) 3 2
      [[[Fin 10], [Fin 51], [Fin 1]], [[Fin 30], [Fin 10], [Fin 32]]] =
     Inr (Fin 23, [[[Fin 20], [Fin 38], [Fin 1]], [[Fin (61/2)], [Fin (11/2)], [Fin (83/2)]]]) \<and>
   map_collect (\<lambda>x. get_closest (snd x)
      [[[Fin 20], [Fin 38], [Fin 1]], [[Fin (61/2)], [Fin (11/2)], [Fin (83/2)]]]) ex_rdd =
     Inr [[2, 1], [2, 1], [1, 0], [1, 0], [1, 0], [1, 2]] \<and>
   run_shift 3 [[[Fin 20], [Fin 38], [Fin 1]], [[Fin (61/2)], [Fin (11/2)], [Fin (83/2)]]]
     (new_point (map snd ex_rdd) [[2, 1], [2, 1], [1, 0], [1, 0], [1, 0], [1, 2]]) 0 = NaN \<and>
   run_shift 3 [[[Fin 20], [Fin 38], [Fin 1]], [[Fin (61/2)], [Fin (11/2)], [Fin (83/2)]]]
     (new_point (map snd ex_rdd) [[2, 1], [2, 1], [1, 0], [1, 0], [1, 0], [1, 2]]) 1 = Fin 10 \<and>
   fgt (Fin 10) (Fin (1/10)) \<and>
   kmeans_body ex_rdd (map snd ex_rdd) 3 2
      [[[Fin 20], [Fin 38], [Fin 1]], [[Fin (61/2)], [Fin (11/2)], [Fin (83/2)]]] =
     Inr (NaN, [[[NaN], [Fin 36], [Fin (11/2)]], [[Fin 31], [Fin (11/2)], [Fin 51]]]) \<and>
   \<not> fle NaN (Fin (1/10)) \<and>
   kmeans_run ex_rng2 ex_rdd 3 2 (Fin (1/10)) 0 =
     Some (Inr (NaN, 2, [[[NaN], [Fin 36], [Fin (11/2)]], [[Fin 31], [Fin (11/2)], [Fin 51]]])) \<and>
   kmeans ex_rng2 ex_rdd 3 2 (Fin (1/10)) 0 =
     Some (Inr [[[NaN], [Fin 36], [Fin (11/2)]], [[Fin 31], [Fin (11/2)], [Fin 51]]])"
proof -
  have run: "kmeans_run ex_rng2 ex_rdd 3 2 (Fin (1/10)) 0 =
     Some (Inr (NaN, 2, [[[NaN], [Fin 36], [Fin (11/2)]], [[Fin 31], [Fin (11/2)], [Fin 51]]]))"
    unfolding kmeans_run_def ex2_init
    apply (simp only: sum.case prod.case)
    apply (subst kmeans_loop.simps)
    apply (simp only: prod.case ex2_body1 sum.case)
    apply (subst kmeans_loop.simps)
    apply (simp only: prod.case ex2_body2 sum.case)
    apply (simp only: kmeans_loop_NaN)
    apply (simp add: fgt_def)
    done
  then have res: "kmeans ex_rng2 ex_rdd 3 2 (Fin (1/10)) 0 =
     Some (Inr [[[NaN], [Fin 36], [Fin (11/2)]], [[Fin 31], [Fin (11/2)], [Fin 51]]])"
    by (simp add: kmeans_def)
  have cmp: "fgt (Fin 10) (Fin (1/10))" "\<not> fle NaN (Fin (1/10))"
    by (simp_all add: fgt_def fle_def)
  from ex2_init ex2_body1 ex2_closest2 ex2_shift2 ex2_body2 cmp run res show ?thesis by blast
qed

subsection \<open>The seeder\<close>

text \<open>
  Claim C3, as the code has it. \<^verbatim>\<open>kmeans_init\<close> never reads its parameter \<^verbatim>\<open>seed\<close>:
  two invocations on the same points, \<open>K\<close> and \<open>RUNS\<close> that start in the same state of
  the global generator return the same centroids (and leave the same state),
  whatever their \<^verbatim>\<open>seed\<close> arguments are.
\<close>

theorem kmeans_init_ignores_seed:
  "kmeans_init g rdd K RUNS seed = kmeans_init g rdd K RUNS seed'"
  by (simp add: kmeans_init_def)


text \<open>
  Claim C3 as the specification states it fails: two invocations in a row with the
  same points, \<open>K = 1\<close>, \<open>RUNS = 1\<close> and the same \<^verbatim>\<open>seed\<close> \<open>7\<close>. The first one starts
  from a generator that returns \<open>0\<close> and then \<open>1/2\<close> for ever, and picks the point
  \<open>[0]\<close>; the second one starts from the state the first one left, and picks \<open>[1]\<close>.
\<close>

theorem kmeans_init_seed_counterexample:
  "kmeans_init (0 ## sconst (1/2)) [(''a'', [Fin 0]), (''b'', [Fin 1])] 1 1 7 =
      Inr ([[[Fin 0]]], sconst (1/2)) \<and>
   kmeans_init (sconst (1/2)) [(''a'', [Fin 0]), (''b'', [Fin 1])] 1 1 7 =
      Inr ([[[Fin 1]]], sconst (1/2))"
  by (simp add: kmeans_init_def init_state_def Let_def)


subsubsection \<open>The distance cache\<close>

lemma fle_zero_cases: "fle (Fin 0) d = (d = PInf \<or> (\<exists>a\<ge>0. d = Fin a))"
  by (cases d) (auto simp: fle_def)

lemma npmin2_nonneg:
  assumes "fle (Fin 0) x" and "fle (Fin 0) y"
  shows "fle (Fin 0) (npmin2 x y)" and "fle (npmin2 x y) x" and "fle (npmin2 x y) y"
  using assms by (cases x; cases y; simp add: npmin2_def fle_def)+

lemma overflow_bound_pos: "0 < overflow_bound"
  using overflow_bound_large by simp

lemma ovf_nonneg: "0 \<le> x \<Longrightarrow> fle (Fin 0) (ovf x)"
  using overflow_bound_pos by (simp add: ovf_def fle_def)

lemma fsq_nonneg: "x \<noteq> NaN \<Longrightarrow> fle (Fin 0) (fsq x)"
proof (cases x)
  case (Fin a)
  have "0 \<le> a * a" by simp
  then have "fle (Fin 0) (ovf (a * a))" by (rule ovf_nonneg)
  with Fin show ?thesis by (simp add: fsq_def)
qed (simp_all add: fsq_def fle_def)

lemma fadd_nonneg:
  assumes "fle (Fin 0) x" and "fle (Fin 0) y"
  shows "fle (Fin 0) (fadd x y)"
proof -
  from assms have "x = PInf \<or> (\<exists>a\<ge>0. x = Fin a)" "y = PInf \<or> (\<exists>b\<ge>0. y = Fin b)"
    by (simp_all add: fle_zero_cases)
  then consider "x = PInf" "y = PInf" | a where "x = PInf" "y = Fin a"
    | a where "x = Fin a" "y = PInf" | a b where "0 \<le> a" "0 \<le> b" "x = Fin a" "y = Fin b"
    by blast
  then show ?thesis
  proof cases
    case (4 a b)
    then have "0 \<le> a + b" by simp
    then have "fle (Fin 0) (ovf (a + b))" by (rule ovf_nonneg)
    with 4 show ?thesis by simp
  qed (simp_all add: fle_def)
qed

lemma npsum_nonneg: "\<forall>x\<in>set xs. fle (Fin 0) x \<Longrightarrow> fle (Fin 0) (npsum xs)"
  by (induction xs) (simp_all add: fle_def fadd_nonneg[unfolded fle_def])

lemma fsqrt_nonneg: "fle (Fin 0) x \<Longrightarrow> fle (Fin 0) (fsqrt x)"
  by (auto simp: fle_zero_cases)

lemma fsub_not_NaN: "fsub (Fin a) (Fin b) \<noteq> NaN"
  by (simp add: fsub_def ovf_def)

lemma sq_dist_nonneg:
  assumes "fin_vec v" and "fin_vec c"
  shows "fle (Fin 0) (fsq (norm_l2 (vsub v c)))"
proof -
  from assms obtain a b where v: "v = map Fin a" and c: "c = map Fin b"
    by (auto simp: fin_vec_def)
  have "\<forall>s\<in>set (map fsq (vsub v c)). fle (Fin 0) s"
    unfolding v c vsub_def by (auto simp: zip_map_map fsq_nonneg fsub_not_NaN)
  then have "fle (Fin 0) (npsum (map fsq (vsub v c)))" by (rule npsum_nonneg)
  then have "fle (Fin 0) (norm_l2 (vsub v c))" unfolding norm_l2_def by (rule fsqrt_nonneg)
  then have "norm_l2 (vsub v c) \<noteq> NaN" by (simp add: fle_def)
  then show ?thesis by (rule fsq_nonneg)
qed

lemma npsum_zeros: "npsum (map (\<lambda>x. Fin 0) xs) = Fin 0"
  by (induction xs) (simp_all add: ovf_zero)

lemma sq_dist_self:
  assumes "fin_vec v"
  shows "fsq (norm_l2 (vsub v v)) = Fin 0"
proof -
  from assms obtain w where w: "v = map Fin w" by (auto simp: fin_vec_def)
  have "map fsq (vsub v v) = map (\<lambda>x. Fin 0) w"
    unfolding w vsub_def
    by (simp add: zip_map_map zip_same_conv_map fsub_def fsq_def ovf_zero comp_def)
  then have "norm_l2 (vsub v v) = Fin 0" by (simp add: norm_l2_def npsum_zeros)
  then show ?thesis by (simp add: fsq_def ovf_zero)
qed

lemma transpose_np_rows:
  "rows \<noteq> [] \<Longrightarrow> transpose_np rows = map (\<lambda>c. map (\<lambda>row. row ! c) rows) [0..<length (hd rows)]"
  by (cases rows) (simp_all add: transpose_np_def)

lemma update_D_rows:
  assumes "length D = RUNS" and "length centers = RUNS" and "local_data \<noteq> []"
  shows "update_D centers local_data D idx =
           map (\<lambda>r. map (\<lambda>x. npmin2 (D ! r ! x) (fsq (norm_l2 (vsub (local_data ! x) (centers ! r ! idx)))))
                  [0..<length local_data])
             [0..<RUNS]"
proof -
  let ?rows = "map (\<lambda>(x, vec). update_dist centers vec (map (\<lambda>row. row ! x) D) idx)
                 (enumerate 0 local_data)"
  have len: "length ?rows = length local_data" by simp
  have row: "?rows ! x = update_dist centers (local_data ! x) (map (\<lambda>row. row ! x) D) idx"
    if "x < length local_data" for x
    using that by (simp add: nth_enumerate_eq)
  have rowlen: "length (?rows ! x) = RUNS" if "x < length local_data" for x
  proof -
    have "length (update_dist centers (local_data ! x) (map (\<lambda>row. row ! x) D) idx) = RUNS"
      using assms(1,2) by (simp add: update_dist_def)
    then show ?thesis by (simp only: row[OF that])
  qed
  have cell: "?rows ! x ! r = npmin2 (D ! r ! x) (fsq (norm_l2 (vsub (local_data ! x) (centers ! r ! idx))))"
    if "x < length local_data" "r < RUNS" for x r
  proof -
    have "update_dist centers (local_data ! x) (map (\<lambda>row. row ! x) D) idx ! r =
          npmin2 (D ! r ! x) (fsq (norm_l2 (vsub (local_data ! x) (centers ! r ! idx))))"
      using that(2) assms(1,2) by (simp add: update_dist_def)
    then show ?thesis by (simp only: row[OF that(1)])
  qed
  from assms(3) len have ne: "?rows \<noteq> []" by (metis length_0_conv)
  then have hd: "hd ?rows = ?rows ! 0" by (simp add: hd_conv_nth)
  from assms(3) have "0 < length local_data" by simp
  then have "length (hd ?rows) = RUNS" unfolding hd by (rule rowlen)
  with transpose_np_rows[OF ne]
  have "update_D centers local_data D idx = map (\<lambda>c. map (\<lambda>row. row ! c) ?rows) [0..<RUNS]"
    by (simp add: update_D_def)
  also have "\<dots> = map (\<lambda>r. map (\<lambda>x. npmin2 (D ! r ! x)
                      (fsq (norm_l2 (vsub (local_data ! x) (centers ! r ! idx)))))
                  [0..<length local_data]) [0..<RUNS]"
  proof (rule map_cong[OF refl])
    fix r assume "r \<in> set [0..<RUNS]"
    then have r: "r < RUNS" by simp
    show "map (\<lambda>row. row ! r) ?rows =
          map (\<lambda>x. npmin2 (D ! r ! x) (fsq (norm_l2 (vsub (local_data ! x) (centers ! r ! idx)))))
            [0..<length local_data]"
    proof (rule nth_equalityI)
      show "length (map (\<lambda>row. row ! r) ?rows) =
            length (map (\<lambda>x. npmin2 (D ! r ! x)
                      (fsq (norm_l2 (vsub (local_data ! x) (centers ! r ! idx)))))
                    [0..<length local_data])"
        by simp
    next
      fix x assume "x < length (map (\<lambda>row. row ! r) ?rows)"
      then have x: "x < length local_data" by simp
      then have "map (\<lambda>row. row ! r) ?rows ! x = ?rows ! x ! r"
        using len by (simp del: map_map)
      with cell[OF x r] x
      show "map (\<lambda>row. row ! r) ?rows ! x =
            map (\<lambda>x. npmin2 (D ! r ! x) (fsq (norm_l2 (vsub (local_data ! x) (centers ! r ! idx)))))
              [0..<length local_data] ! x"
        by simp
    qed
  qed
  finally show ?thesis .
qed


lemma randint_length: "length (fst (randint n m g)) = m"
proof (induction m arbitrary: g)
  case 0
  then show ?case by simp
next
  case (Suc m)
  obtain ks g' where r: "randint n m (stl g) = (ks, g')" by (cases "randint n m (stl g)")
  with Suc[of "stl g"] show ?case by simp
qed

lemma choice_loop_bound:
  "choice_loop u r idx xs = Inr k \<Longrightarrow> idx \<le> k \<and> k < idx + length xs"
  by (induction xs arbitrary: r idx) (fastforce simp: Let_def split: if_splits)+

lemma choice_bound:
  assumes "choice g p = Inr (ind, g')"
  shows "ind < length p" and "g' = stl g"
  using assms choice_loop_bound[of "Fin (shd g)" "Fin 0" 0 p ind]
  by (auto simp: choice_def choice_with_def split: sum.splits)

lemma choose_runs_invariant:
  assumes "choose_runs local_data prob idx runs (centers, g) = Inr (centers', g')"
    and "P runs centers g"
    and "\<And>i rest c h ind. P (i # rest) c h \<Longrightarrow> choice h (prob ! i) = Inr (ind, stl h) \<Longrightarrow>
           P rest (c[i := (c ! i)[Suc idx := local_data ! ind]]) (stl h)"
  shows "P [] centers' g'"
  using assms(1,2)
proof (induction runs arbitrary: centers g)
  case Nil
  then show ?case by simp
next
  case (Cons i rest)
  from Cons.prems(1) obtain ind h where ch: "choice g (prob ! i) = Inr (ind, h)"
    and rec: "choose_runs local_data prob idx rest
                (centers[i := (centers ! i)[Suc idx := local_data ! ind]], h) = Inr (centers', g')"
    by (auto split: sum.splits)
  from choice_bound(2)[OF ch] have h: "h = stl g" .
  from assms(3)[OF Cons.prems(2)] ch h
  have "P rest (centers[i := (centers ! i)[Suc idx := local_data ! ind]]) h" by simp
  with Cons.IH[OF rec] show ?case .
qed

lemma choose_runs_errors:
  "choose_runs local_data prob idx runs (centers, g) = Inl e \<Longrightarrow> e = AssertionError"
proof (induction runs arbitrary: centers g)
  case Nil
  then show ?case by simp
next
  case (Cons i rest)
  show ?case
  proof (cases "choice g (prob ! i)")
    case (Inl e')
    then have "e' = AssertionError"
      using choice_loop_errors[of "Fin (shd g)" "Fin 0" 0 "prob ! i" e']
      by (auto simp: choice_def choice_with_def split: sum.splits)
    with Inl Cons.prems show ?thesis by simp
  next
    case (Inr a)
    with Cons show ?thesis by (cases a) auto
  qed
qed

lemma init_rounds_append:
  "init_rounds local_data RUNS (xs @ ys) st =
     (case init_rounds local_data RUNS xs st of
        Inl e \<Rightarrow> Inl e
      | Inr st' \<Rightarrow> init_rounds local_data RUNS ys st')"
  by (induction local_data RUNS xs st rule: init_rounds.induct)
     (auto simp: Let_def split: sum.splits)

lemma init_rounds_errors:
  "init_rounds local_data RUNS idxs st = Inl e \<Longrightarrow> e = AssertionError"
  by (induction local_data RUNS idxs st rule: init_rounds.induct)
     (auto simp: Let_def split: sum.splits dest: choose_runs_errors)

lemma init_rounds_Suc:
  "init_rounds local_data RUNS [0..<Suc m] st =
     (case init_rounds local_data RUNS [0..<m] st of
        Inl e \<Rightarrow> Inl e
      | Inr (centers, D, g) \<Rightarrow>
          (case choose_runs local_data (normalize_rows (update_D centers local_data D m)) m
                  [0..<RUNS] (centers, g) of
             Inl e \<Rightarrow> Inl e
           | Inr (centers', g') \<Rightarrow> Inr (centers', update_D centers local_data D m, g')))"
  by (simp add: init_rounds_append Let_def split: sum.splits prod.splits)

lemma centers_shape_update:
  assumes "centers_shape local_data RUNS K c" and "fin_vec v"
  shows "centers_shape local_data RUNS K (c[i := (c ! i)[k := v]])"
proof -
  have "length cs = K \<and> (\<forall>a\<in>set cs. fin_vec a)"
    if "cs \<in> set (c[i := (c ! i)[k := v]])" for cs
  proof -
    from that set_update_subset_insert[of c i "(c ! i)[k := v]"]
    consider "cs \<in> set c" | "cs = (c ! i)[k := v]" "i < length c"
      by (cases "i < length c") (auto simp: list_update_beyond)
    then show ?thesis
    proof cases
      case 1
      with assms(1) show ?thesis by (simp add: centers_shape_def)
    next
      case 2
      then have "c ! i \<in> set c" by simp
      with assms(1) have ci: "length (c ! i) = K" "\<forall>a\<in>set (c ! i). fin_vec a"
        by (simp_all add: centers_shape_def)
      have "\<forall>a\<in>set ((c ! i)[k := v]). fin_vec a"
        using ci(2) assms(2) set_update_subset_insert[of "c ! i" k v] by auto
      with 2 ci(1) show ?thesis by simp
    qed
  qed
  with assms(1) show ?thesis by (simp add: centers_shape_def)
qed

lemma cache_shape_update_D:
  assumes "centers_shape local_data RUNS K centers" and "cache_shape local_data RUNS D"
    and "local_data \<noteq> []" and "\<forall>v\<in>set local_data. fin_vec v" and "idx < K"
  shows "cache_shape local_data RUNS (update_D centers local_data D idx)"
proof -
  from assms(1,2) have lens: "length D = RUNS" "length centers = RUNS"
    by (simp_all add: centers_shape_def cache_shape_def)
  have cellnn: "fle (Fin 0) (npmin2 (D ! r ! x)
                  (fsq (norm_l2 (vsub (local_data ! x) (centers ! r ! idx)))))"
    if "r < RUNS" "x < length local_data" for r x
  proof -
    from that lens have Dr: "D ! r \<in> set D" by simp
    with assms(2) have "length (D ! r) = length local_data" "\<forall>d\<in>set (D ! r). fle (Fin 0) d"
      by (simp_all add: cache_shape_def)
    with that(2) have d: "fle (Fin 0) (D ! r ! x)" by simp
    from that lens have "centers ! r \<in> set centers" by simp
    with assms(1,5) have "fin_vec (centers ! r ! idx)" by (simp add: centers_shape_def)
    moreover from that assms(4) have "fin_vec (local_data ! x)" by simp
    ultimately have "fle (Fin 0) (fsq (norm_l2 (vsub (local_data ! x) (centers ! r ! idx))))"
      by (rule sq_dist_nonneg[rotated])
    with d show ?thesis by (rule npmin2_nonneg(1))
  qed
  show ?thesis
    unfolding update_D_rows[OF lens assms(3)] cache_shape_def
    using cellnn by auto
qed


lemma normalize_rows_length:
  assumes "cache_shape local_data RUNS D" and "i < RUNS"
  shows "length (normalize_rows D ! i) = length local_data"
proof -
  from assms have "D ! i \<in> set D" by (simp add: cache_shape_def)
  with assms show ?thesis by (simp add: cache_shape_def normalize_rows_def)
qed

lemma choose_runs_shape:
  assumes "choose_runs local_data (normalize_rows D) idx [0..<RUNS] (centers, g) = Inr (centers', g')"
    and "centers_shape local_data RUNS K centers" and "cache_shape local_data RUNS D"
    and "\<forall>v\<in>set local_data. fin_vec v"
  shows "centers_shape local_data RUNS K centers'"
proof -
  let ?P = "\<lambda>runs c (h::rng). centers_shape local_data RUNS K c \<and> (\<forall>i\<in>set runs. i < RUNS)"
  have "?P [] centers' g'"
  proof (rule choose_runs_invariant[where P = ?P, OF assms(1)])
    show "?P [0..<RUNS] centers g" using assms(2) by simp
  next
    fix i rest c h ind
    assume P: "?P (i # rest) c h" and ch: "choice h (normalize_rows D ! i) = Inr (ind, stl h)"
    from P have i: "i < RUNS" by simp
    from choice_bound(1)[OF ch] normalize_rows_length[OF assms(3) i]
    have "ind < length local_data" by simp
    with assms(4) have "fin_vec (local_data ! ind)" by simp
    with P show "?P rest (c[i := (c ! i)[Suc idx := local_data ! ind]]) (stl h)"
      by (simp add: centers_shape_update)
  qed
  then show ?thesis by simp
qed

lemma init_rounds_shape:
  assumes "centers_shape local_data RUNS K centers0" and "cache_shape local_data RUNS D0"
    and "local_data \<noteq> []" and "\<forall>v\<in>set local_data. fin_vec v"
    and "m \<le> K - 1"
    and "init_rounds local_data RUNS [0..<m] (centers0, D0, g0) = Inr (centers, D, g)"
  shows "centers_shape local_data RUNS K centers \<and> cache_shape local_data RUNS D"
  using assms(5,6)
proof (induction m arbitrary: centers D g)
  case 0
  with assms(1,2) show ?case by simp
next
  case (Suc m)
  from Suc.prems(2) obtain c1 D1 g1 where
    prev: "init_rounds local_data RUNS [0..<m] (centers0, D0, g0) = Inr (c1, D1, g1)"
    and ch: "choose_runs local_data (normalize_rows (update_D c1 local_data D1 m)) m
               [0..<RUNS] (c1, g1) = Inr (centers, g)"
    and D: "D = update_D c1 local_data D1 m"
    unfolding init_rounds_Suc by (auto split: sum.splits prod.splits)
  from Suc.prems(1) have "m \<le> K - 1" and mK: "m < K" by simp_all
  from Suc.IH[OF this(1) prev] have s1: "centers_shape local_data RUNS K c1"
    and d1: "cache_shape local_data RUNS D1" by simp_all
  have d2: "cache_shape local_data RUNS (update_D c1 local_data D1 m)"
    using s1 d1 assms(3,4) mK by (rule cache_shape_update_D)
  from choose_runs_shape[OF ch s1 d2 assms(4)] d2 D show ?case by simp
qed

lemma init_state_shape:
  assumes "init_state g rdd K RUNS = Inr (centers, D, g')"
    and "\<forall>v\<in>set (map snd rdd). fin_vec v"
  shows "centers_shape (map snd rdd) RUNS K centers \<and> cache_shape (map snd rdd) RUNS D \<and>
         rdd \<noteq> [] \<and> 0 < K"
proof -
  let ?ld = "map snd rdd"
  from assms(1) obtain first rest where rdd: "rdd = first # rest"
    by (cases rdd) (simp_all add: init_state_def)
  obtain ks h where ri: "randint (length ?ld) RUNS g = (ks, h)"
    by (cases "randint (length ?ld) RUNS g")
  from randint_length[of "length ?ld" RUNS g] ri have lks: "length ks = RUNS" by simp
  let ?zeros = "replicate RUNS (replicate K (replicate (length (snd first)) (Fin 0)))"
  from assms(1) rdd ri have inr: "\<forall>k\<in>set ks. k < length ?ld" and K: "0 < K"
    and c: "centers = map (\<lambda>(cs, k). cs[0 := ?ld ! k]) (zip ?zeros ks)"
    and D: "D = replicate RUNS (replicate (length rdd) PInf)"
    by (auto simp: init_state_def Let_def split: if_splits)
  have fz: "fin_vec (replicate n (Fin 0))" for n
    unfolding fin_vec_def by (rule exI[of _ "replicate n 0"]) simp
  have "length cs = K \<and> (\<forall>a\<in>set cs. fin_vec a)" if "cs \<in> set centers" for cs
  proof -
    from that c obtain z k where zk: "(z, k) \<in> set (zip ?zeros ks)" and cs: "cs = z[0 := ?ld ! k]"
      by auto
    from zk have z: "z = replicate K (replicate (length (snd first)) (Fin 0))" and k: "k \<in> set ks"
      by (auto dest: set_zip_leftD set_zip_rightD)
    from k inr assms(2) have "fin_vec (?ld ! k)" by simp
    with cs z fz show ?thesis
      using set_update_subset_insert[of z 0 "?ld ! k"] by auto
  qed
  moreover have "length centers = RUNS" using c lks by simp
  moreover have "cache_shape ?ld RUNS D"
    using D by (auto simp: cache_shape_def fle_def)
  ultimately show ?thesis using rdd K by (simp add: centers_shape_def)
qed

lemma ex_round0:
  "init_rounds (map snd ex_rdd) 1 [0..<1]
     ([[[Fin 10], [Fin 0], [Fin 0]]], [[PInf, PInf, PInf, PInf, PInf, PInf]], (1/2) ## sconst 0) =
   Inr ([[[Fin 10], [Fin 51], [Fin 0]]], [[Fin 81, Fin 0, Fin 400, Fin 441, Fin 484, Fin 1681]],
        sconst 0)"
  by (simp add: ex_rdd_def upt_rec Let_def update_D_def enumerate_eq_zip
     update_dist_def norm_1d transpose_np_def npmin2_def fsq_def normalize_rows_def choice_def
     choice_with_def fgt_def ovf_small)

text \<open>
  Claim C9. Let the points be real-valued, and let the seeding be in the state
  \<open>(centers, D, g1)\<close> after \<open>m\<close> of its \<open>K - 1\<close> rounds. For every run \<open>r\<close> and every
  point \<open>x\<close>, the entry \<open>D[r][x]\<close> is not negative. When the round \<open>m\<close> is still to
  come, it replaces the entry with the minimum of its previous value and the squared
  distance from the point to the centroid \<open>m\<close> of the run (the one added last); the
  new entry is not negative and not greater than the previous one; and the state
  after the round \<open>m\<close>, when the round succeeds, holds this updated cache.
\<close>

theorem distance_cache_monotone:
  fixes pts :: "real list list"
  assumes "map snd rdd = map (map Fin) pts"
    and "init_state g rdd K RUNS = Inr st0"
    and "m \<le> K - 1"
    and "init_rounds (map snd rdd) RUNS [0..<m] st0 = Inr (centers, D, g1)"
    and "r < RUNS" and "x < length rdd"
  shows "fle (Fin 0) (D ! r ! x) \<and>
         (m < K - 1 \<longrightarrow>
            fle (Fin 0) (update_D centers (map snd rdd) D m ! r ! x) \<and>
            fle (update_D centers (map snd rdd) D m ! r ! x) (D ! r ! x) \<and>
            update_D centers (map snd rdd) D m ! r ! x =
              npmin2 (D ! r ! x) (fsq (norm_l2 (vsub (map snd rdd ! x) (centers ! r ! m)))) \<and>
            (\<forall>centers' D' g2.
                init_rounds (map snd rdd) RUNS [0..<Suc m] st0 = Inr (centers', D', g2) \<longrightarrow>
                D' = update_D centers (map snd rdd) D m))"
proof -
  let ?ld = "map snd rdd"
  have fin: "\<forall>v\<in>set ?ld. fin_vec v"
    unfolding assms(1) by (auto simp: fin_vec_def)
  obtain c0 D0 g0 where st0: "st0 = (c0, D0, g0)" by (cases st0)
  from init_state_shape[OF assms(2)[unfolded st0] fin]
  have s0: "centers_shape ?ld RUNS K c0" and d0: "cache_shape ?ld RUNS D0" and ne: "?ld \<noteq> []"
    by simp_all
  from init_rounds_shape[OF s0 d0 ne fin assms(3) assms(4)[unfolded st0]]
  have s: "centers_shape ?ld RUNS K centers" and d: "cache_shape ?ld RUNS D" by simp_all
  then have lens: "length D = RUNS" "length centers = RUNS"
    by (simp_all add: centers_shape_def cache_shape_def)
  from assms(5) lens have "D ! r \<in> set D" by simp
  with d have "length (D ! r) = length ?ld" "\<forall>a\<in>set (D ! r). fle (Fin 0) a"
    by (simp_all add: cache_shape_def)
  with assms(6) have nn: "fle (Fin 0) (D ! r ! x)" by simp
  have cell: "update_D centers ?ld D m ! r ! x =
        npmin2 (D ! r ! x) (fsq (norm_l2 (vsub (?ld ! x) (centers ! r ! m))))"
    unfolding update_D_rows[OF lens ne] using assms(5,6) by simp
  have next_round: "D' = update_D centers ?ld D m"
    if "init_rounds ?ld RUNS [0..<Suc m] st0 = Inr (centers', D', g2)" for centers' D' g2
    using that unfolding init_rounds_Suc assms(4) by (auto split: sum.splits)
  have round: "fle (Fin 0) (update_D centers ?ld D m ! r ! x) \<and>
               fle (update_D centers ?ld D m ! r ! x) (D ! r ! x)" if "m < K - 1"
  proof -
    from that have mK: "m < K" by simp
    from assms(5) lens have "centers ! r \<in> set centers" by simp
    with s mK have "fin_vec (centers ! r ! m)" by (simp add: centers_shape_def)
    moreover from assms(6) fin have "fin_vec (?ld ! x)" by simp
    ultimately have "fle (Fin 0) (fsq (norm_l2 (vsub (?ld ! x) (centers ! r ! m))))"
      by (rule sq_dist_nonneg[rotated])
    from npmin2_nonneg(1,2)[OF nn this] show ?thesis by (simp add: cell)
  qed
  from nn round cell next_round show ?thesis by simp
qed

text \<open>
  The example after its round \<open>0\<close>: the point \<open>31\<close> is at the squared distance \<open>441\<close>
  from \<open>10\<close>, and the round \<open>1\<close> lowers its entry to \<open>400\<close>, the squared distance from
  \<open>51\<close>.
\<close>

theorem distance_cache_monotone_witness:
  "update_D [[[Fin 10], [Fin 51], [Fin 0]]] (map snd ex_rdd)
     [[Fin 81, Fin 0, Fin 400, Fin 441, Fin 484, Fin 1681]] 1 ! 0 ! 3 = Fin 400 \<and>
   fle (update_D [[[Fin 10], [Fin 51], [Fin 0]]] (map snd ex_rdd)
     [[Fin 81, Fin 0, Fin 400, Fin 441, Fin 484, Fin 1681]] 1 ! 0 ! 3) (Fin 441)"
proof -
  have pts: "map snd ex_rdd = map (map Fin) [[1], [10], [30], [31], [32], [51]]"
    by (simp add: ex_rdd_def)
  have m: "(1::nat) \<le> 3 - 1" and r: "(0::nat) < 1" and x: "3 < length ex_rdd"
    by (simp_all add: ex_rdd_def)
  from distance_cache_monotone[OF pts ex_state m ex_round0 r x]
  show ?thesis
    by (simp add: ex_rdd_def norm_1d fsq_def npmin2_def fle_def ovf_small del: One_nat_def)
qed

subsubsection \<open>Fewer points than clusters\<close>

lemma uniform_stl: "uniform g \<Longrightarrow> uniform (stl g)"
  unfolding uniform_def using stl_sset by fastforce

lemma uniform_shd: "uniform g \<Longrightarrow> 0 \<le> shd g \<and> shd g < 1"
  unfolding uniform_def using shd_sset by blast

lemma randint_uniform:
  assumes "uniform g" and "0 < n"
  shows "(\<forall>k\<in>set (fst (randint n m g)). k < n) \<and> uniform (snd (randint n m g))"
  using assms(1)
proof (induction m arbitrary: g)
  case 0
  then show ?case by simp
next
  case (Suc m)
  obtain ks g' where r: "randint n m (stl g) = (ks, g')" by (cases "randint n m (stl g)")
  from Suc.IH[OF uniform_stl[OF Suc.prems]] r
  have ih: "\<forall>k\<in>set ks. k < n" "uniform g'" by simp_all
  from uniform_shd[OF Suc.prems] have u: "0 \<le> shd g" "shd g < 1" by simp_all
  from u assms(2) have "shd g * real n < real n" by simp
  then have "\<lfloor>shd g * real n\<rfloor> < int n" by (simp add: floor_less_iff)
  moreover from u have "0 \<le> \<lfloor>shd g * real n\<rfloor>" by simp
  ultimately have "nat \<lfloor>shd g * real n\<rfloor> < n" by linarith
  with ih r show ?case by simp
qed

lemma fadd_fadd_zero: "fadd (fadd x y) (Fin 0) = fadd x y"
  by (cases x; cases y; simp add: ovf_def)

lemma fadd_NaN: "fadd r NaN = NaN"
  by (cases r) simp_all

text \<open>
  The running sum of \<^verbatim>\<open>choice\<close> is \<open>0.0\<close> or a sum of two floats: adding \<open>0.0\<close> to it
  leaves it as it is, so the weight at the chosen index is not \<open>0.0\<close>.
\<close>

lemma choice_loop_positive:
  assumes "choice_loop u r idx xs = Inr k" and "\<not> fgt r u" and "fadd r (Fin 0) = r"
  shows "xs ! (k - idx) \<noteq> Fin 0 \<and> xs ! (k - idx) \<noteq> NaN"
  using assms
proof (induction xs arbitrary: r idx)
  case Nil
  then show ?case by simp
next
  case (Cons x xs)
  show ?case
  proof (cases "fgt (fadd r x) u")
    case True
    with Cons.prems(1) have k: "k = idx" by (simp add: Let_def)
    from True Cons.prems(2,3) have "x \<noteq> Fin 0" by auto
    moreover from True have "x \<noteq> NaN" by (auto simp: fadd_NaN fgt_def flt_NaN)
    ultimately show ?thesis using k by simp
  next
    case False
    with Cons.prems(1) have rec: "choice_loop u (fadd r x) (Suc idx) xs = Inr k"
      by (simp add: Let_def)
    from choice_loop_bound[OF rec] have "Suc idx \<le> k" by simp
    then have "k - idx = Suc (k - Suc idx)" by simp
    with Cons.IH[OF rec False fadd_fadd_zero] show ?thesis by simp
  qed
qed

lemma choice_positive:
  assumes "choice g p = Inr (ind, g')" and "0 \<le> shd g"
  shows "p ! ind \<noteq> Fin 0 \<and> p ! ind \<noteq> NaN"
proof -
  from assms(1) have "choice_loop (Fin (shd g)) (Fin 0) 0 p = Inr ind"
    by (auto simp: choice_def choice_with_def split: sum.splits)
  moreover from assms(2) have "\<not> fgt (Fin 0) (Fin (shd g))" by (simp add: fgt_def)
  moreover have "fadd (Fin 0) (Fin 0) = Fin 0" by (simp add: ovf_zero)
  ultimately show ?thesis using choice_loop_positive[of "Fin (shd g)" "Fin 0" 0 p ind] by simp
qed

lemma fdiv_zero: "fdiv (Fin 0) s = Fin 0 \<or> fdiv (Fin 0) s = NaN"
  by (cases s) (simp_all add: infmul_def ovf_zero)

lemma normalize_rows_nth:
  assumes "i < length D" and "x < length (D ! i)"
  shows "normalize_rows D ! i ! x = fdiv (D ! i ! x) (npsum (D ! i))"
  using assms by (simp add: normalize_rows_def)


lemma npmin2_zero:
  assumes "fle (Fin 0) y"
  shows "npmin2 (Fin 0) y = Fin 0" and "npmin2 y (Fin 0) = Fin 0"
  using assms by (cases y; simp add: npmin2_def fle_def)+

lemma update_D_zero:
  assumes s: "centers_shape local_data RUNS K c1" and d: "cache_shape local_data RUNS D1"
    and ne: "local_data \<noteq> []" and fin: "\<forall>v\<in>set local_data. fin_vec v" and mK: "m < K"
    and inv: "seed_distinct local_data RUNS m c1 D1"
    and r: "r < RUNS" and x: "x < length local_data" and k: "k < Suc m"
    and eq: "local_data ! x = c1 ! r ! k"
  shows "update_D c1 local_data D1 m ! r ! x = Fin 0"
proof -
  from s d have lens: "length D1 = RUNS" "length c1 = RUNS"
    by (simp_all add: centers_shape_def cache_shape_def)
  have cell: "update_D c1 local_data D1 m ! r ! x =
        npmin2 (D1 ! r ! x) (fsq (norm_l2 (vsub (local_data ! x) (c1 ! r ! m))))"
    unfolding update_D_rows[OF lens ne] using r x by simp
  from r lens have "D1 ! r \<in> set D1" by simp
  with d have "length (D1 ! r) = length local_data" "\<forall>a\<in>set (D1 ! r). fle (Fin 0) a"
    by (simp_all add: cache_shape_def)
  with x have nn: "fle (Fin 0) (D1 ! r ! x)" by simp
  from x fin have fx: "fin_vec (local_data ! x)" by simp
  from r lens have "c1 ! r \<in> set c1" by simp
  with s mK have "fin_vec (c1 ! r ! m)" by (simp add: centers_shape_def)
  with fx have sq: "fle (Fin 0) (fsq (norm_l2 (vsub (local_data ! x) (c1 ! r ! m))))"
    by (rule sq_dist_nonneg)
  show ?thesis
  proof (cases "k < m")
    case True
    with inv r x eq have "D1 ! r ! x = Fin 0" by (simp add: seed_distinct_def)
    with sq show ?thesis by (simp add: cell npmin2_zero)
  next
    case False
    with k have "k = m" by simp
    with eq fx have "fsq (norm_l2 (vsub (local_data ! x) (c1 ! r ! m))) = Fin 0"
      by (simp add: sq_dist_self)
    with nn show ?thesis by (simp add: cell npmin2_zero)
  qed
qed

lemma choose_runs_distinct:
  assumes ch: "choose_runs local_data (normalize_rows D') m [0..<RUNS] (c1, g1) = Inr (c', g')"
    and s: "centers_shape local_data RUNS K c1" and d: "cache_shape local_data RUNS D'"
    and fin: "\<forall>v\<in>set local_data. fin_vec v" and mK: "Suc m < K"
    and dist: "\<forall>r<RUNS. distinct (take (Suc m) (c1 ! r)) \<and>
                 set (take (Suc m) (c1 ! r)) \<subseteq> set local_data"
    and zero: "\<forall>r<RUNS. \<forall>x<length local_data. \<forall>k<Suc m.
                 local_data ! x = c1 ! r ! k \<longrightarrow> D' ! r ! x = Fin 0"
    and u: "uniform g1"
  shows "uniform g' \<and>
         (\<forall>r<RUNS. take (Suc m) (c' ! r) = take (Suc m) (c1 ! r) \<and>
                    distinct (take (Suc (Suc m)) (c' ! r)) \<and>
                    set (take (Suc (Suc m)) (c' ! r)) \<subseteq> set local_data)"
proof -
  let ?P = "\<lambda>runs c h. centers_shape local_data RUNS K c \<and> uniform h \<and>
              (\<forall>i\<in>set runs. i < RUNS) \<and>
              (\<forall>r<RUNS. take (Suc m) (c ! r) = take (Suc m) (c1 ! r)) \<and>
              (\<forall>r<RUNS. r \<notin> set runs \<longrightarrow>
                  distinct (take (Suc (Suc m)) (c ! r)) \<and>
                  set (take (Suc (Suc m)) (c ! r)) \<subseteq> set local_data)"
  have "?P [] c' g'"
  proof (rule choose_runs_invariant[where P = ?P, OF ch])
    show "?P [0..<RUNS] c1 g1" using s u by simp
  next
    fix i rest c h ind
    assume P: "?P (i # rest) c h"
      and c: "choice h (normalize_rows D' ! i) = Inr (ind, stl h)"
    from P have i: "i < RUNS" and sc: "centers_shape local_data RUNS K c" and uh: "uniform h"
      and same: "\<forall>r<RUNS. take (Suc m) (c ! r) = take (Suc m) (c1 ! r)"
      and settled: "\<forall>r<RUNS. r \<notin> set (i # rest) \<longrightarrow>
                  distinct (take (Suc (Suc m)) (c ! r)) \<and>
                  set (take (Suc (Suc m)) (c ! r)) \<subseteq> set local_data"
      by simp_all
    let ?v = "local_data ! ind"
    let ?c = "c[i := (c ! i)[Suc m := ?v]]"
    from choice_bound(1)[OF c] normalize_rows_length[OF d i]
    have ind: "ind < length local_data" by simp
    with fin have fv: "fin_vec ?v" by simp
    from sc i have lc: "length c = RUNS" and lci: "length (c ! i) = K"
      by (simp_all add: centers_shape_def)
    from d i have lD: "length D' = RUNS" and lDi: "length (D' ! i) = length local_data"
      by (simp_all add: cache_shape_def)
    \<comment> \<open>the chosen point has a positive weight, so it is none of the centroids so far\<close>
    from choice_positive[OF c] uniform_shd[OF uh]
    have "normalize_rows D' ! i ! ind \<noteq> Fin 0 \<and> normalize_rows D' ! i ! ind \<noteq> NaN" by simp
    moreover have "normalize_rows D' ! i ! ind = fdiv (D' ! i ! ind) (npsum (D' ! i))"
      using i ind lD lDi by (simp add: normalize_rows_nth)
    ultimately have "D' ! i ! ind \<noteq> Fin 0" using fdiv_zero[of "npsum (D' ! i)"] by auto
    with zero i ind have new: "\<forall>k<Suc m. ?v \<noteq> c1 ! i ! k" by blast
    have notin: "?v \<notin> set (take (Suc m) (c1 ! i))"
    proof
      assume "?v \<in> set (take (Suc m) (c1 ! i))"
      then obtain k where "k < length (take (Suc m) (c1 ! i))" "take (Suc m) (c1 ! i) ! k = ?v"
        by (auto simp: in_set_conv_nth)
      then have "k < Suc m" "c1 ! i ! k = ?v" by simp_all
      with new show False by auto
    qed
    have upd: "take (Suc (Suc m)) ((c ! i)[Suc m := ?v]) = take (Suc m) (c ! i) @ [?v]"
      using mK lci by (simp add: take_Suc_conv_app_nth)
    have row_i: "?c ! i = (c ! i)[Suc m := ?v]" using i lc by simp
    have row_r: "?c ! r = c ! r" if "r \<noteq> i" for r using that by simp
    have same': "\<forall>r<RUNS. take (Suc m) (?c ! r) = take (Suc m) (c1 ! r)"
    proof (intro allI impI)
      fix r assume r: "r < RUNS"
      show "take (Suc m) (?c ! r) = take (Suc m) (c1 ! r)"
      proof (cases "r = i")
        case True
        with same r show ?thesis by (simp add: row_i)
      next
        case False
        with same r show ?thesis by (simp add: row_r)
      qed
    qed
    have settled': "\<forall>r<RUNS. r \<notin> set rest \<longrightarrow>
                  distinct (take (Suc (Suc m)) (?c ! r)) \<and>
                  set (take (Suc (Suc m)) (?c ! r)) \<subseteq> set local_data"
    proof (intro allI impI)
      fix r assume r: "r < RUNS" and nr: "r \<notin> set rest"
      show "distinct (take (Suc (Suc m)) (?c ! r)) \<and>
            set (take (Suc (Suc m)) (?c ! r)) \<subseteq> set local_data"
      proof (cases "r = i")
        case True
        from same i have t: "take (Suc m) (c ! i) = take (Suc m) (c1 ! i)" by simp
        from dist i have "distinct (take (Suc m) (c1 ! i))"
          "set (take (Suc m) (c1 ! i)) \<subseteq> set local_data" by simp_all
        with notin ind show ?thesis
          unfolding True row_i upd t by simp
      next
        case False
        with nr have "r \<notin> set (i # rest)" by simp
        with settled r False show ?thesis by (simp add: row_r)
      qed
    qed
    from sc fv have "centers_shape local_data RUNS K ?c" by (rule centers_shape_update)
    with uniform_stl[OF uh] P same' settled'
    show "?P rest ?c (stl h)" by simp
  qed
  then show ?thesis by simp
qed


lemma init_rounds_distinct:
  assumes s0: "centers_shape local_data RUNS K c0" and d0: "cache_shape local_data RUNS D0"
    and ne: "local_data \<noteq> []" and fin: "\<forall>v\<in>set local_data. fin_vec v"
    and i0: "seed_distinct local_data RUNS 0 c0 D0" and u0: "uniform g0"
    and "m \<le> K - 1"
    and "init_rounds local_data RUNS [0..<m] (c0, D0, g0) = Inr (c, D, g)"
  shows "seed_distinct local_data RUNS m c D \<and> uniform g"
  using assms(7,8)
proof (induction m arbitrary: c D g)
  case 0
  with i0 u0 show ?case by simp
next
  case (Suc m)
  from Suc.prems(2) obtain c1 D1 g1 where
    prev: "init_rounds local_data RUNS [0..<m] (c0, D0, g0) = Inr (c1, D1, g1)"
    and ch: "choose_runs local_data (normalize_rows (update_D c1 local_data D1 m)) m
               [0..<RUNS] (c1, g1) = Inr (c, g)"
    and D: "D = update_D c1 local_data D1 m"
    unfolding init_rounds_Suc by (auto split: sum.splits prod.splits)
  from Suc.prems(1) have mle: "m \<le> K - 1" and mK: "m < K" and SmK: "Suc m < K" by simp_all
  from Suc.IH[OF mle prev] have i1: "seed_distinct local_data RUNS m c1 D1" and u1: "uniform g1"
    by simp_all
  from init_rounds_shape[OF s0 d0 ne fin mle prev]
  have s1: "centers_shape local_data RUNS K c1" and d1: "cache_shape local_data RUNS D1"
    by simp_all
  have d2: "cache_shape local_data RUNS D"
    unfolding D using s1 d1 ne fin mK by (rule cache_shape_update_D)
  have dist: "\<forall>r<RUNS. distinct (take (Suc m) (c1 ! r)) \<and>
                 set (take (Suc m) (c1 ! r)) \<subseteq> set local_data"
    using i1 by (simp add: seed_distinct_def)
  have zero: "\<forall>r<RUNS. \<forall>x<length local_data. \<forall>k<Suc m.
                 local_data ! x = c1 ! r ! k \<longrightarrow> D ! r ! x = Fin 0"
    unfolding D using update_D_zero[OF s1 d1 ne fin mK i1] by blast
  from choose_runs_distinct[OF ch[folded D] s1 d2 fin SmK dist zero u1]
  have u: "uniform g"
    and same: "\<forall>r<RUNS. take (Suc m) (c ! r) = take (Suc m) (c1 ! r)"
    and new: "\<forall>r<RUNS. distinct (take (Suc (Suc m)) (c ! r)) \<and>
                set (take (Suc (Suc m)) (c ! r)) \<subseteq> set local_data"
    by simp_all
  have "D ! r ! x = Fin 0"
    if "r < RUNS" "x < length local_data" "k < Suc m" "local_data ! x = c ! r ! k" for r x k
  proof -
    from same that(1) have "take (Suc m) (c ! r) ! k = take (Suc m) (c1 ! r) ! k" by simp
    with that(3) have "c ! r ! k = c1 ! r ! k" by simp
    with zero that show ?thesis by simp
  qed
  with new u show ?case by (simp add: seed_distinct_def)
qed

lemma init_state_distinct:
  assumes "init_state g rdd K RUNS = Inr (c0, D0, g0)" and "uniform g"
  shows "seed_distinct (map snd rdd) RUNS 0 c0 D0 \<and> uniform g0"
proof -
  let ?ld = "map snd rdd"
  from assms(1) obtain first rest where rdd: "rdd = first # rest"
    by (cases rdd) (simp_all add: init_state_def)
  obtain ks h where ri: "randint (length ?ld) RUNS g = (ks, h)"
    by (cases "randint (length ?ld) RUNS g")
  from randint_length[of "length ?ld" RUNS g] ri have lks: "length ks = RUNS" by simp
  let ?zeros = "replicate RUNS (replicate K (replicate (length (snd first)) (Fin 0)))"
  from assms(1) rdd ri have inr: "\<forall>k\<in>set ks. k < length ?ld" and K: "0 < K"
    and c: "c0 = map (\<lambda>(cs, k). cs[0 := ?ld ! k]) (zip ?zeros ks)"
    and g0: "g0 = h"
    by (auto simp: init_state_def Let_def split: if_splits)
  from rdd have "0 < length ?ld" by simp
  from randint_uniform[OF assms(2) this, of RUNS] ri g0 have "uniform g0" by simp
  moreover have "distinct (take (Suc 0) (c0 ! r)) \<and> set (take (Suc 0) (c0 ! r)) \<subseteq> set ?ld"
    if "r < RUNS" for r
  proof -
    from that lks have "c0 ! r = (replicate K (replicate (length (snd first)) (Fin 0)))[0 := ?ld ! (ks ! r)]"
      by (simp add: c)
    with K have "take (Suc 0) (c0 ! r) = [?ld ! (ks ! r)]"
      by (cases K) simp_all
    moreover from that lks inr have "ks ! r < length ?ld" by simp
    ultimately show ?thesis by simp
  qed
  ultimately show ?thesis by (simp add: seed_distinct_def)
qed

lemma init_state_succeeds:
  assumes "rdd \<noteq> []" and "0 < K" and "0 < RUNS" and "uniform g"
  shows "\<exists>st. init_state g rdd K RUNS = Inr st"
proof -
  let ?ld = "map snd rdd"
  from assms(1) obtain first rest where rdd: "rdd = first # rest" by (cases rdd) auto
  obtain ks h where ri: "randint (length ?ld) RUNS g = (ks, h)"
    by (cases "randint (length ?ld) RUNS g")
  from rdd have "0 < length ?ld" by simp
  from randint_uniform[OF assms(4) this, of RUNS] ri have "\<forall>k\<in>set ks. k < length ?ld" by simp
  then have "\<not> (\<exists>k\<in>set ks. length ?ld \<le> k)" by auto
  with rdd ri assms(2,3) show ?thesis
    by (simp add: init_state_def Let_def)
qed

text \<open>
  Claim C4, as the code has it. Let the points be real-valued, \<open>N < K\<close>,
  \<open>RUNS > 0\<close>, and let the generator return numbers of \<open>[0, 1)\<close>. Then
  \<^verbatim>\<open>kmeans_init\<close> returns no centroids: without any point it fails where it reads
  the first point (\<^verbatim>\<open>IndexError\<close>), and otherwise it fails in \<^verbatim>\<open>choice\<close>
  (\<^verbatim>\<open>AssertionError\<close>), at the latest in the round where every point is a centroid
  already and all the weights are \<open>0/0\<close>.
\<close>

theorem kmeans_init_too_few_points:
  fixes pts :: "real list list"
  assumes "map snd rdd = map (map Fin) pts"
    and "length rdd < K" and "0 < RUNS"
    and "\<forall>u\<in>sset g. 0 \<le> u \<and> u < 1"
  shows "kmeans_init g rdd K RUNS seed = (if rdd = [] then Inl IndexError else Inl AssertionError)"
proof (cases "rdd = []")
  case True
  then show ?thesis by (simp add: kmeans_init_def init_state_def)
next
  case False
  let ?ld = "map snd rdd"
  have fin: "\<forall>v\<in>set ?ld. fin_vec v"
    unfolding assms(1) by (auto simp: fin_vec_def)
  from assms(4) have u: "uniform g" by (simp add: uniform_def)
  from assms(2) have K: "0 < K" by simp
  from init_state_succeeds[OF False K assms(3) u]
  obtain c0 D0 g0 where st: "init_state g rdd K RUNS = Inr (c0, D0, g0)"
    by (metis prod_cases3)
  from init_state_shape[OF st fin]
  have s0: "centers_shape ?ld RUNS K c0" and d0: "cache_shape ?ld RUNS D0" and ne: "?ld \<noteq> []"
    by simp_all
  from init_state_distinct[OF st u]
  have i0: "seed_distinct ?ld RUNS 0 c0 D0" and u0: "uniform g0" by simp_all
  have "init_rounds ?ld RUNS [0..<K - 1] (c0, D0, g0) = Inl AssertionError"
  proof (cases "init_rounds ?ld RUNS [0..<K - 1] (c0, D0, g0)")
    case (Inl e)
    with init_rounds_errors[OF Inl] show ?thesis by simp
  next
    case (Inr st')
    obtain c D g' where st': "st' = (c, D, g')" by (cases st')
    note rounds = Inr[unfolded st']
    from init_rounds_shape[OF s0 d0 ne fin le_refl rounds]
    have s: "centers_shape ?ld RUNS K c" by simp
    from init_rounds_distinct[OF s0 d0 ne fin i0 u0 le_refl rounds]
    have i: "seed_distinct ?ld RUNS (K - 1) c D" by simp
    from s assms(3) have "c ! 0 \<in> set c" by (simp add: centers_shape_def)
    with s have len: "length (c ! 0) = K" by (simp add: centers_shape_def)
    from i assms(3) K have "distinct (take K (c ! 0))" "set (take K (c ! 0)) \<subseteq> set ?ld"
      by (simp_all add: seed_distinct_def)
    with len have "distinct (c ! 0)" "set (c ! 0) \<subseteq> set ?ld" by simp_all
    then have "length (c ! 0) \<le> card (set ?ld)"
      by (metis distinct_card card_mono List.finite_set)
    also have "\<dots> \<le> length ?ld" by (rule card_length)
    finally have "K \<le> length rdd" using len by simp
    with assms(2) show ?thesis by simp
  qed
  with st False show ?thesis by (simp add: kmeans_init_def)
qed

theorem kmeans_init_too_few_points_witness:
  "kmeans_init (sconst (1/2)) [(''a'', [Fin 0]), (''b'', [Fin 1])] 3 1 0 = Inl AssertionError \<and>
   kmeans_init (sconst (1/2)) [] 3 1 0 = Inl IndexError"
proof -
  have u: "\<forall>u\<in>sset (sconst (1/2::real)). 0 \<le> u \<and> u < 1" by simp
  have "map snd [(''a'', [Fin 0]), (''b'', [Fin 1])] = map (map Fin) [[0], [1]]" by simp
  from kmeans_init_too_few_points[OF this _ _ u, of 3 1 0]
  have a: "kmeans_init (sconst (1/2)) [(''a'', [Fin 0]), (''b'', [Fin 1])] 3 1 0 = Inl AssertionError"
    by simp
  have "map snd ([]::point list) = map (map Fin) []" by simp
  from kmeans_init_too_few_points[OF this _ _ u, of 3 1 0]
  have "kmeans_init (sconst (1/2)) [] 3 1 0 = Inl IndexError" by simp
  with a show ?thesis by simp
qed

text \<open>
  Claim C4 as the specification states it fails: one point and \<open>K = 2\<close>. The fault
  is the assertion failure of \<^verbatim>\<open>choice\<close>; \<^verbatim>\<open>kmeans_init\<close> has no check of \<open>N\<close>
  against \<open>K\<close>.
\<close>

theorem kmeans_init_spec_counterexample:
  "kmeans_init (sconst 0) [(''a'', [Fin 0])] 2 1 0 = Inl AssertionError"
  by (simp add: kmeans_init_def init_state_def Let_def update_D_def enumerate_eq_zip
      update_dist_def norm_1d transpose_np_def npmin2_def fsq_def normalize_rows_def choice_def
      choice_with_def fgt_def infmul_def ovf_small ovf_zero)

end
